(* ===== verification/Prelude.thy ===== *)
theory Prelude
  imports Complex_Main "HOL-Library.Word"
begin

text \<open>
  Shared ground of the development: the Go types the proxy uses and their
  arithmetic, Go errors as values, the contracts (invariant, labelled simulation) that the
  components instantiate, and the lemma collections their proofs draw on.

  Go's \<open>int\<close> and \<open>int64\<close> are both 64 bits wide on the supported platforms. A value of
  either type is an \<open>int\<close> here; every addition that can leave the range is followed by
  \<open>wrap64\<close>, which is two's complement wrap-around. A \<open>string\<close> or a \<open>[]byte\<close> is a list
  of characters, one per byte.
\<close>

named_theorems go_defs \<open>definitions of the operations of a component\<close>
named_theorems go_arith \<open>range and wrap-around facts about machine integers\<close>

type_synonym bytes = string

text \<open>A \<open>time.Time\<close> is a number of nanoseconds, a \<open>time.Duration\<close> a signed 64-bit one.\<close>

type_synonym time = int
type_synonym duration = int

section \<open>Machine integers\<close>

definition int64 :: "int \<Rightarrow> bool" where
  "int64 x \<longleftrightarrow> - (2 ^ 63) \<le> x \<and> x < 2 ^ 63"

definition wrap64 :: "int \<Rightarrow> int" where
  "wrap64 x = (x + 2 ^ 63) mod 2 ^ 64 - 2 ^ 63"

definition wrap32 :: "int \<Rightarrow> int" where
  "wrap32 x = (x + 2 ^ 31) mod 2 ^ 32 - 2 ^ 31"

lemma wrap64_id [go_arith]: "int64 x \<Longrightarrow> wrap64 x = x"
  by (simp add: wrap64_def int64_def)

lemma int64_wrap64 [simp, go_arith]: "int64 (wrap64 x)"
  by (simp add: wrap64_def int64_def)

lemma wrap64_word: "wrap64 x = sint (word_of_int x :: 64 word)"
  by (simp add: wrap64_def int_word_sint)

lemma wrap64_add_wrap64 [simp]: "wrap64 (wrap64 x + y) = wrap64 (x + y)"
proof -
  have "(wrap64 x + y + 2 ^ 63) = (x + 2 ^ 63) mod 2 ^ 64 + y"
    by (simp add: wrap64_def)
  then show ?thesis
    by (simp add: wrap64_def mod_simps algebra_simps)
qed

lemma wrap64_high [go_arith]:
  assumes "2 ^ 63 \<le> x" and "x < 2 ^ 64"
  shows "wrap64 x = x - 2 ^ 64"
proof -
  have "(x + 2 ^ 63) mod 2 ^ 64 = (x - 2 ^ 63 + 2 ^ 64) mod 2 ^ 64" by (simp add: add.commute)
  also have "\<dots> = (x - 2 ^ 63) mod 2 ^ 64" by (rule mod_add_self2)
  also have "\<dots> = x - 2 ^ 63" using assms by (intro mod_pos_pos_trivial) simp_all
  finally show ?thesis by (simp add: wrap64_def)
qed

lemma wrap64_less_max: "int64 x \<Longrightarrow> x < y \<Longrightarrow> int64 y \<Longrightarrow> wrap64 (x + 1) = x + 1"
  by (simp add: wrap64_id int64_def)

text \<open>Go's \<open>%\<close> truncates: the remainder has the sign of the dividend.\<close>

definition go_rem :: "int \<Rightarrow> int \<Rightarrow> int" where
  "go_rem a b = sgn a * (\<bar>a\<bar> mod \<bar>b\<bar>)"

lemma go_rem_nonneg [go_arith]: "0 \<le> a \<Longrightarrow> 0 < b \<Longrightarrow> go_rem a b = a mod b"
  by (cases "a = 0") (simp_all add: go_rem_def)

lemma go_rem_neg [go_arith]: "a < 0 \<Longrightarrow> 0 < b \<Longrightarrow> go_rem a b = - ((- a) mod b)"
  by (simp add: go_rem_def)

lemma go_rem_less: "0 < b \<Longrightarrow> go_rem a b < b"
proof (cases "0 \<le> a")
  case True
  moreover assume "0 < b"
  ultimately show ?thesis by (simp add: go_rem_nonneg)
next
  case False
  moreover assume b: "0 < b"
  ultimately have "go_rem a b = - ((- a) mod b)" by (simp add: go_rem_neg)
  also have "\<dots> \<le> 0" using b by simp
  finally show ?thesis using b by simp
qed

text \<open>Integer division truncates towards zero.\<close>

definition go_quot :: "int \<Rightarrow> int \<Rightarrow> int" where
  "go_quot a b = sgn a * sgn b * (\<bar>a\<bar> div \<bar>b\<bar>)"

lemma go_quot_nonneg [go_arith]: "0 \<le> a \<Longrightarrow> 0 < b \<Longrightarrow> go_quot a b = a div b"
  by (cases "a = 0") (simp_all add: go_quot_def)

lemma go_quot_rem: "go_quot a b * b + go_rem a b = a"
proof -
  have b: "sgn b * b = \<bar>b\<bar>" by (simp add: sgn_if)
  have "go_quot a b * b = sgn a * (\<bar>a\<bar> div \<bar>b\<bar> * (sgn b * b))"
    by (simp add: go_quot_def ac_simps)
  then have "go_quot a b * b + go_rem a b = sgn a * (\<bar>a\<bar> div \<bar>b\<bar> * \<bar>b\<bar> + \<bar>a\<bar> mod \<bar>b\<bar>)"
    by (simp only: b go_rem_def distrib_left)
  then show ?thesis by (simp add: sgn_mult_abs)
qed

text \<open>The zero \<open>time.Time\<close>: 1 January of year 1, in nanoseconds before the Unix epoch.\<close>

definition zero_time :: time where
  "zero_time = - 62135596800 * 1000000000"

text \<open>\<open>Time.Sub\<close> and \<open>time.Since\<close> saturate at the ends of \<open>Duration\<close>.\<close>

definition time_sub :: "time \<Rightarrow> time \<Rightarrow> duration" where
  "time_sub t u = max (- (2 ^ 63)) (min (2 ^ 63 - 1) (t - u))"

lemma time_sub_gt [go_arith]:
  "int64 d \<Longrightarrow> d < 2 ^ 63 - 1 \<Longrightarrow> (d < time_sub t u) = (d < t - u)"
  by (auto simp: time_sub_def int64_def)

lemma time_sub_exact [go_arith]: "int64 (t - u) \<Longrightarrow> time_sub t u = t - u"
  by (simp add: time_sub_def int64_def)

lemma time_sub_mono: "t \<le> t' \<Longrightarrow> time_sub t u \<le> time_sub t' u"
  by (simp add: time_sub_def)

lemma time_sub_nonneg: "u \<le> t \<Longrightarrow> 0 \<le> time_sub t u"
  by (simp add: time_sub_def)

section \<open>Lists\<close>

lemma nth_update_if: "j < length xs \<Longrightarrow> xs[i := y] ! j = (if j = i then y else xs ! j)"
  by auto

lemma map_update_same: "f x = f (xs ! i) \<Longrightarrow> map f (xs[i := x]) = map f xs"
  by (metis list_update_id map_update)

section \<open>Formatting of integers\<close>

text \<open>The \<open>%d\<close> verb of \<open>fmt\<close>.\<close>

fun nat_dec :: "nat \<Rightarrow> string" where
  "nat_dec n = (if n < 10 then [char_of (48 + n)]
     else nat_dec (n div 10) @ [char_of (48 + n mod 10)])"

declare nat_dec.simps [simp del]

definition itoa :: "int \<Rightarrow> string" where
  "itoa i = (if i < 0 then ''-'' @ nat_dec (nat (- i)) else nat_dec (nat i))"

section \<open>Errors\<close>

text \<open>
  The sentinel errors the packages declare, the errors made from a text, and
  \<open>fmt.Errorf("text: %w", err)\<close>. \<open>ErrWrapNil\<close> is the same call with a nil error.
\<close>

datatype go_error =
    ErrNoHealthyEndpoints
  | ErrCircuitOpen
  | ErrPoolClosed
  | ErrPoolExhausted
  | ErrNew string
  | ErrWrap string go_error
  | ErrWrapNil string

fun error_text :: "go_error \<Rightarrow> string" where
  "error_text ErrNoHealthyEndpoints = ''no healthy endpoints available''"
| "error_text ErrCircuitOpen = ''circuit breaker is open''"
| "error_text ErrPoolClosed = ''connection pool is closed''"
| "error_text ErrPoolExhausted = ''connection pool exhausted''"
| "error_text (ErrNew s) = s"
| "error_text (ErrWrap s e) = s @ '': '' @ error_text e"
| "error_text (ErrWrapNil s) = s @ '': %!w(<nil>)''"

text \<open>\<open>errors.Is\<close> along the chain of wrapped errors.\<close>

fun error_is :: "go_error \<Rightarrow> go_error \<Rightarrow> bool" where
  "error_is (ErrWrap s e) t = (ErrWrap s e = t \<or> error_is e t)"
| "error_is e t = (e = t)"

text \<open>
  A function that can panic returns an \<open>outcome\<close>. Where the code recovers nothing, a
  panic ends the goroutine and, outside the HTTP handlers, the process.
\<close>

datatype 'a outcome = Return 'a | Panic string

text \<open>
  The Go values an \<open>interface{}\<close> holds after \<open>json.Unmarshal\<close>. A number is a \<open>float64\<close>,
  given here by its value.
\<close>

datatype json =
    JNull
  | JBool bool
  | JNumber rat
  | JString string
  | JArray "json list"
  | JObject "(string \<times> json) list"

section \<open>Contracts shared by the components\<close>

text \<open>
  A component is a step relation over its state. \<open>invariant_system\<close> asks that every step
  keeps the invariant and gives it for every run.
\<close>

locale invariant_system =
  fixes step :: "'s \<Rightarrow> 's \<Rightarrow> bool"
    and inv :: "'s \<Rightarrow> bool"
  assumes step_inv: "inv s \<Longrightarrow> step s t \<Longrightarrow> inv t"
begin

lemma run_inv: "step\<^sup>*\<^sup>* s t \<Longrightarrow> inv s \<Longrightarrow> inv t"
  by (induction rule: rtranclp_induct) (auto intro: step_inv)

end

text \<open>
  Where callers see the outcome of a step, the step carries a label: the call, its clock
  readings and its result. \<open>trace\<close> is a run with the labels it shows.
\<close>

inductive trace :: "('s \<Rightarrow> 'l \<Rightarrow> 's \<Rightarrow> bool) \<Rightarrow> 's \<Rightarrow> 'l list \<Rightarrow> 's \<Rightarrow> bool" for step where
  trace_Nil [intro]: "trace step s [] s"
| trace_Cons [intro]: "step s l t \<Longrightarrow> trace step t ls u \<Longrightarrow> trace step s (l # ls) u"

inductive_simps trace_simps [simp]:
  "trace step s [] t"
  "trace step s (l # ls) t"

text \<open>
  \<open>labelled_simulation\<close>: the abstract machine answers every step by one of its own with the
  same label, so whatever the callers of the component see, the abstract machine shows.
\<close>

locale labelled_system =
  fixes lstep :: "'s \<Rightarrow> 'l \<Rightarrow> 's \<Rightarrow> bool"
    and inv :: "'s \<Rightarrow> bool"
  assumes lstep_inv: "inv s \<Longrightarrow> lstep s l t \<Longrightarrow> inv t"
begin

lemma trace_inv: "trace lstep s ls t \<Longrightarrow> inv s \<Longrightarrow> inv t"
  by (induction rule: trace.induct) (auto intro: lstep_inv)

end

locale labelled_simulation = labelled_system lstep inv
  for lstep :: "'s \<Rightarrow> 'l \<Rightarrow> 's \<Rightarrow> bool" and inv :: "'s \<Rightarrow> bool" +
  fixes spec :: "'a \<Rightarrow> 'l \<Rightarrow> 'a \<Rightarrow> bool"
    and absf :: "'s \<Rightarrow> 'a"
  assumes lstep_sim: "inv s \<Longrightarrow> lstep s l t \<Longrightarrow> spec (absf s) l (absf t)"
begin

lemma trace_sim: "trace lstep s ls t \<Longrightarrow> inv s \<Longrightarrow> trace spec (absf s) ls (absf t)"
  by (induction rule: trace.induct) (auto intro: lstep_sim lstep_inv)

end

end
