(* ===== verification/CircuitBreaker.thy ===== *)
theory CircuitBreaker
  imports Prelude
begin

text \<open>
  \<open>internal/chain/circuitbreaker.go\<close>. The breaker stores only \<open>StateClosed\<close> and
  \<open>StateOpen\<close>; half-open is computed from the clock by \<open>currentState\<close>. Every method runs
  under \<open>cb.mu\<close>, so a method is one atomic step; its clock readings are arguments
  (\<open>RecordFailure\<close> reads the clock twice: once in \<open>currentState\<close>, once in \<open>trip\<close>).
  The second half states the three-phase breaker the code promises and shows that the
  code refines it.
\<close>

section \<open>State\<close>

datatype State = StateClosed | StateOpen | StateHalfOpen

text \<open>Go orders the constants by their \<open>iota\<close> value.\<close>

fun State_iota :: "State \<Rightarrow> nat" where
  "State_iota StateClosed = 0"
| "State_iota StateOpen = 1"
| "State_iota StateHalfOpen = 2"

instantiation State :: linorder
begin

definition less_eq_State :: "State \<Rightarrow> State \<Rightarrow> bool" where
  "less_eq_State s t \<longleftrightarrow> State_iota s \<le> State_iota t"

definition less_State :: "State \<Rightarrow> State \<Rightarrow> bool" where
  "less_State s t \<longleftrightarrow> State_iota s < State_iota t"

instance
proof
  fix s t :: State
  assume "s \<le> t" and "t \<le> s"
  then show "s = t" by (cases s; cases t) (auto simp: less_eq_State_def)
qed (auto simp: less_eq_State_def less_State_def)

end

fun State_String :: "State \<Rightarrow> string" where
  "State_String StateClosed = ''closed''"
| "State_String StateOpen = ''open''"
| "State_String StateHalfOpen = ''half-open''"

record CircuitBreakerConfig =
  FailureThreshold :: int
  SuccessThreshold :: int
  Timeout :: duration
  HalfOpenMaxRequests :: int

definition DefaultCircuitBreakerConfig :: CircuitBreakerConfig where
  "DefaultCircuitBreakerConfig =
     \<lparr>FailureThreshold = 5, SuccessThreshold = 2,
      Timeout = 30 * 1000000000, HalfOpenMaxRequests = 3\<rparr>"

text \<open>The zero \<open>time.Time\<close> of a breaker that never tripped is year 1; it is never read.\<close>

record CircuitBreaker =
  cb_config :: CircuitBreakerConfig
  state :: State
  failures :: int
  successes :: int
  lastFailureTime :: time
  halfOpenRequests :: int

definition NewCircuitBreaker :: "CircuitBreakerConfig \<Rightarrow> CircuitBreaker" where
  "NewCircuitBreaker config =
     \<lparr>cb_config = config, state = StateClosed, failures = 0, successes = 0,
      lastFailureTime = zero_time, halfOpenRequests = 0\<rparr>"

section \<open>Operations\<close>

definition currentState :: "CircuitBreaker \<Rightarrow> time \<Rightarrow> State" where
  "currentState cb now =
     (case state cb of
        StateOpen \<Rightarrow>
          (if Timeout (cb_config cb) < time_sub now (lastFailureTime cb)
           then StateHalfOpen else StateOpen)
      | s \<Rightarrow> s)"

definition Allow :: "CircuitBreaker \<Rightarrow> time \<Rightarrow> bool \<times> CircuitBreaker" where
  "Allow cb now =
     (case currentState cb now of
        StateClosed \<Rightarrow> (True, cb)
      | StateOpen \<Rightarrow> (False, cb)
      | StateHalfOpen \<Rightarrow>
          (if halfOpenRequests cb < HalfOpenMaxRequests (cb_config cb)
           then (True, cb\<lparr>halfOpenRequests := wrap64 (halfOpenRequests cb + 1)\<rparr>)
           else (False, cb)))"

definition trip :: "CircuitBreaker \<Rightarrow> time \<Rightarrow> CircuitBreaker" where
  "trip cb now = cb\<lparr>state := StateOpen, lastFailureTime := now,
     halfOpenRequests := 0, successes := 0\<rparr>"

definition reset :: "CircuitBreaker \<Rightarrow> CircuitBreaker" where
  "reset cb = cb\<lparr>state := StateClosed, failures := 0, successes := 0,
     halfOpenRequests := 0\<rparr>"

definition RecordSuccess :: "CircuitBreaker \<Rightarrow> time \<Rightarrow> CircuitBreaker" where
  "RecordSuccess cb now =
     (case currentState cb now of
        StateClosed \<Rightarrow> cb\<lparr>failures := 0\<rparr>
      | StateHalfOpen \<Rightarrow>
          (let cb' = cb\<lparr>successes := wrap64 (successes cb + 1)\<rparr>
           in if SuccessThreshold (cb_config cb') \<le> successes cb' then reset cb' else cb')
      | StateOpen \<Rightarrow> cb)"

definition RecordFailure :: "CircuitBreaker \<Rightarrow> time \<Rightarrow> time \<Rightarrow> CircuitBreaker" where
  "RecordFailure cb now now' =
     (case currentState cb now of
        StateClosed \<Rightarrow>
          (let cb' = cb\<lparr>failures := wrap64 (failures cb + 1)\<rparr>
           in if FailureThreshold (cb_config cb') \<le> failures cb' then trip cb' now' else cb')
      | StateHalfOpen \<Rightarrow> trip cb now'
      | StateOpen \<Rightarrow> cb)"

definition Reset :: "CircuitBreaker \<Rightarrow> CircuitBreaker" where
  "Reset cb = reset cb"

record CircuitBreakerStats =
  st_State :: string
  st_Failures :: int
  st_Successes :: int
  st_LastFailureTime :: time
  st_HalfOpenRequests :: int

definition cb_Stats :: "CircuitBreaker \<Rightarrow> time \<Rightarrow> CircuitBreakerStats" where
  "cb_Stats cb now =
     \<lparr>st_State = State_String (currentState cb now), st_Failures = failures cb,
      st_Successes = successes cb, st_LastFailureTime = lastFailureTime cb,
      st_HalfOpenRequests = halfOpenRequests cb\<rparr>"

text \<open>
  \<open>Execute(fn)\<close>: \<open>fn\<close> is the caller's code, given by the error it returns; \<open>t1\<close> is the
  clock at the admission, \<open>t2\<close> and \<open>t3\<close> the readings when its outcome is recorded.
\<close>

definition Execute ::
  "CircuitBreaker \<Rightarrow> time \<Rightarrow> time \<Rightarrow> time \<Rightarrow> go_error option \<Rightarrow>
     go_error option \<times> CircuitBreaker" where
  "Execute cb t1 t2 t3 fn =
     (let (ok, cb1) = Allow cb t1
      in if \<not> ok then (Some ErrCircuitOpen, cb1)
         else case fn of
             Some err \<Rightarrow> (Some err, RecordFailure cb1 t2 t3)
           | None \<Rightarrow> (None, RecordSuccess cb1 t2))"

lemmas breaker_defs [go_defs] =
  Allow_def RecordSuccess_def RecordFailure_def Reset_def trip_def reset_def

section \<open>Basic facts\<close>

lemma currentState_Closed [simp]: "state cb = StateClosed \<Longrightarrow> currentState cb now = StateClosed"
  by (simp add: currentState_def)

lemma currentState_Closed_iff:
  "(currentState cb now = StateClosed) = (state cb = StateClosed)"
  by (auto simp: currentState_def split: State.splits)

lemma currentState_HalfOpen_later:
  "currentState cb now = StateHalfOpen \<Longrightarrow> now \<le> now' \<Longrightarrow> currentState cb now' = StateHalfOpen"
  using time_sub_mono [of now now' "lastFailureTime cb"]
  by (auto simp: currentState_def split: State.splits if_splits)

lemma currentState_Open_earlier:
  "currentState cb now' = StateOpen \<Longrightarrow> now \<le> now' \<Longrightarrow> currentState cb now = StateOpen"
  using currentState_HalfOpen_later [of cb now now'] currentState_Closed_iff
  by (metis State.exhaust State.distinct(1) State.distinct(5))

lemma breaker_config [simp]:
  "cb_config (snd (Allow cb now)) = cb_config cb"
  "cb_config (RecordSuccess cb now) = cb_config cb"
  "cb_config (RecordFailure cb now now') = cb_config cb"
  "cb_config (trip cb now) = cb_config cb"
  "cb_config (reset cb) = cb_config cb"
  "cb_config (Reset cb) = cb_config cb"
  by (auto simp: go_defs Let_def split: State.splits)

lemma Allow_open: "currentState cb now = StateOpen \<Longrightarrow> Allow cb now = (False, cb)"
  by (simp add: Allow_def)

lemma RecordSuccess_open: "currentState cb now = StateOpen \<Longrightarrow> RecordSuccess cb now = cb"
  by (simp add: RecordSuccess_def)

lemma RecordFailure_open: "currentState cb now = StateOpen \<Longrightarrow> RecordFailure cb now now' = cb"
  by (simp add: RecordFailure_def)

lemmas breaker_open = Allow_open RecordSuccess_open RecordFailure_open

section \<open>The breaker as a transition system\<close>

text \<open>
  A state of the system is the breaker and the clock. Any number of goroutines call the
  methods in any order; an outcome may be recorded long after its admission, so successes
  and failures are not tied to earlier admissions. The label of a step is what its caller
  sees: the clock after it, and for \<open>Allow\<close> the verdict.
\<close>

datatype cb_event =
    Tick time
  | Asked bool
  | Succeeded
  | Failed time
  | Forced

inductive cb_step :: "CircuitBreaker \<times> time \<Rightarrow> cb_event \<Rightarrow> CircuitBreaker \<times> time \<Rightarrow> bool" where
  cb_tick: "now \<le> now' \<Longrightarrow> cb_step (cb, now) (Tick now') (cb, now')"
| cb_allow: "Allow cb now = (ok, cb') \<Longrightarrow> cb_step (cb, now) (Asked ok) (cb', now)"
| cb_success: "cb_step (cb, now) Succeeded (RecordSuccess cb now, now)"
| cb_failure: "now \<le> now' \<Longrightarrow> cb_step (cb, now) (Failed now') (RecordFailure cb now now', now')"
| cb_reset: "cb_step (cb, now) Forced (Reset cb, now)"

inductive_cases cb_stepE: "cb_step s l t"

text \<open>
  The invariant: half-open is never stored; the counters are those of the phase the
  breaker is in and stay below their thresholds; before the timeout has passed nothing
  has been counted since the trip.
\<close>

definition cb_inv :: "CircuitBreakerConfig \<Rightarrow> CircuitBreaker \<times> time \<Rightarrow> bool" where
  "cb_inv cfg = (\<lambda>(cb, now).
     cb_config cb = cfg \<and>
     int64 (FailureThreshold cfg) \<and> int64 (SuccessThreshold cfg) \<and>
     int64 (HalfOpenMaxRequests cfg) \<and>
     state cb \<noteq> StateHalfOpen \<and> int64 (failures cb) \<and>
     (state cb = StateClosed \<longrightarrow>
        0 \<le> failures cb \<and> (failures cb = 0 \<or> failures cb < FailureThreshold cfg) \<and>
        successes cb = 0 \<and> halfOpenRequests cb = 0) \<and>
     (state cb = StateOpen \<longrightarrow>
        0 \<le> successes cb \<and> (successes cb = 0 \<or> successes cb < SuccessThreshold cfg) \<and>
        0 \<le> halfOpenRequests cb \<and>
        (halfOpenRequests cb = 0 \<or> halfOpenRequests cb \<le> HalfOpenMaxRequests cfg) \<and>
        (currentState cb now = StateOpen \<longrightarrow>
           successes cb = 0 \<and> halfOpenRequests cb = 0)))"

lemma wrap64_inc [go_arith]:
  "0 \<le> x \<Longrightarrow> x < y \<Longrightarrow> int64 y \<Longrightarrow> wrap64 (x + 1) = x + 1"
  by (simp add: wrap64_id int64_def)

lemma wrap64_one [simp]: "wrap64 1 = 1"
  by (simp add: wrap64_def)

lemma int64_0 [simp]: "int64 0"
  by (simp add: int64_def)

lemma cb_inv_new:
  "int64 (FailureThreshold cfg) \<Longrightarrow> int64 (SuccessThreshold cfg) \<Longrightarrow>
   int64 (HalfOpenMaxRequests cfg) \<Longrightarrow> cb_inv cfg (NewCircuitBreaker cfg, now)"
  by (simp add: cb_inv_def NewCircuitBreaker_def)

lemma cb_inv_tick: "cb_inv cfg (cb, now) \<Longrightarrow> now \<le> now' \<Longrightarrow> cb_inv cfg (cb, now')"
  using currentState_Open_earlier [of cb now' now] by (auto simp: cb_inv_def)

lemma cb_inv_Allow:
  assumes "cb_inv cfg (cb, now)"
  shows "cb_inv cfg (snd (Allow cb now), now)"
proof (cases "currentState cb now")
  case StateHalfOpen
  then have "state cb = StateOpen"
    using assms by (cases "state cb") (auto simp: cb_inv_def)
  then show ?thesis
    using assms StateHalfOpen wrap64_inc [of "halfOpenRequests cb" "HalfOpenMaxRequests cfg"]
    by (auto simp: cb_inv_def Allow_def currentState_def split: if_splits)
qed (use assms in \<open>simp_all add: Allow_def\<close>)

lemma cb_inv_Reset: "cb_inv cfg (cb, now) \<Longrightarrow> cb_inv cfg (Reset cb, now)"
  by (auto simp: cb_inv_def Reset_def reset_def)

lemma cb_inv_trip: "cb_inv cfg (cb, now) \<Longrightarrow> cb_inv cfg (trip cb now', now'')"
  by (auto simp: cb_inv_def trip_def)

lemma cb_inv_RecordSuccess:
  assumes "cb_inv cfg (cb, now)"
  shows "cb_inv cfg (RecordSuccess cb now, now)"
proof (cases "currentState cb now")
  case StateClosed
  with assms show ?thesis
    by (auto simp: RecordSuccess_def cb_inv_def currentState_Closed_iff)
next
  case StateHalfOpen
  then have "state cb = StateOpen"
    using assms by (cases "state cb") (auto simp: cb_inv_def)
  then show ?thesis
    using assms StateHalfOpen wrap64_inc [of "successes cb" "SuccessThreshold cfg"]
    by (auto simp: cb_inv_def RecordSuccess_def currentState_def reset_def Let_def
        split: if_splits)
qed (use assms in \<open>simp add: RecordSuccess_open\<close>)

lemma cb_inv_RecordFailure:
  assumes "cb_inv cfg (cb, now)" and "now \<le> now'"
  shows "cb_inv cfg (RecordFailure cb now now', now')"
proof (cases "currentState cb now")
  case StateClosed
  then have st: "state cb = StateClosed" by (simp add: currentState_Closed_iff)
  have inc: "wrap64 (failures cb + 1) = failures cb + 1"
    using assms st wrap64_inc [of "failures cb" "FailureThreshold cfg"]
    by (auto simp: cb_inv_def)
  have range: "int64 (failures cb + 1)"
    using inc int64_wrap64 by metis
  show ?thesis
    using assms st inc range
    by (auto simp: RecordFailure_def cb_inv_def trip_def Let_def)
next
  case StateHalfOpen
  with assms cb_inv_trip show ?thesis by (auto simp: RecordFailure_def)
next
  case StateOpen
  with assms cb_inv_tick show ?thesis by (simp add: RecordFailure_open)
qed

lemma cb_inv_verdict: "cb_inv cfg (cb, now) \<Longrightarrow> Allow cb now = (ok, cb') \<Longrightarrow> cb_inv cfg (cb', now)"
  using cb_inv_Allow [of cfg cb now] by simp

lemma cb_step_inv: "cb_inv cfg s \<Longrightarrow> cb_step s l t \<Longrightarrow> cb_inv cfg t"
  by (erule cb_stepE)
    (auto intro: cb_inv_tick cb_inv_verdict cb_inv_RecordSuccess cb_inv_RecordFailure cb_inv_Reset)

section \<open>The abstract breaker\<close>

text \<open>
  What the package promises: three phases, failures counted while closed, a tripping time
  while open, admitted probes and successful probes while half-open. \<open>expired\<close> is the
  code's timeout test.
\<close>

datatype phase =
    Closed int
  | Open time
  | HalfOpen int int

definition expired :: "CircuitBreakerConfig \<Rightarrow> time \<Rightarrow> time \<Rightarrow> bool" where
  "expired cfg since now \<longleftrightarrow> Timeout cfg < time_sub now since"

text \<open>An open breaker whose timeout is over is half-open, and nothing has been counted yet.\<close>

fun settle :: "CircuitBreakerConfig \<Rightarrow> time \<Rightarrow> phase \<Rightarrow> phase" where
  "settle cfg now (Open s) = (if expired cfg s now then HalfOpen 0 0 else Open s)"
| "settle cfg now p = p"

text \<open>
  One rule per phase and call, with the verdict in the label: a closed breaker admits, an open
  one refuses, a half-open one admits while probes are left. Failures of a closed breaker open
  it when their number reaches the threshold and not before; one failed probe opens it again;
  enough successful probes close it; outcomes recorded while it is open are ignored; only
  \<open>Reset\<close> closes it otherwise.
\<close>

inductive breaker_step ::
  "CircuitBreakerConfig \<Rightarrow> phase \<times> time \<Rightarrow> cb_event \<Rightarrow> phase \<times> time \<Rightarrow> bool" for cfg where
  tick: "now \<le> now' \<Longrightarrow> breaker_step cfg (p, now) (Tick now') (settle cfg now' p, now')"
| admit_closed: "breaker_step cfg (Closed f, now) (Asked True) (Closed f, now)"
| refuse_open: "breaker_step cfg (Open s, now) (Asked False) (Open s, now)"
| admit_probe: "a < HalfOpenMaxRequests cfg \<Longrightarrow>
     breaker_step cfg (HalfOpen a k, now) (Asked True) (HalfOpen (a + 1) k, now)"
| refuse_probe: "HalfOpenMaxRequests cfg \<le> a \<Longrightarrow>
     breaker_step cfg (HalfOpen a k, now) (Asked False) (HalfOpen a k, now)"
| ok_closed: "breaker_step cfg (Closed f, now) Succeeded (Closed 0, now)"
| ok_open: "breaker_step cfg (Open s, now) Succeeded (Open s, now)"
| ok_probe: "k + 1 < SuccessThreshold cfg \<Longrightarrow>
     breaker_step cfg (HalfOpen a k, now) Succeeded (HalfOpen a (k + 1), now)"
| ok_last: "SuccessThreshold cfg \<le> k + 1 \<Longrightarrow>
     breaker_step cfg (HalfOpen a k, now) Succeeded (Closed 0, now)"
| fail_closed: "f + 1 < FailureThreshold cfg \<Longrightarrow> now \<le> now' \<Longrightarrow>
     breaker_step cfg (Closed f, now) (Failed now') (Closed (f + 1), now')"
| fail_trip: "FailureThreshold cfg \<le> f + 1 \<Longrightarrow> now \<le> now' \<Longrightarrow>
     breaker_step cfg (Closed f, now) (Failed now') (settle cfg now' (Open now'), now')"
| fail_open: "now \<le> now' \<Longrightarrow>
     breaker_step cfg (Open s, now) (Failed now') (settle cfg now' (Open s), now')"
| fail_probe: "now \<le> now' \<Longrightarrow>
     breaker_step cfg (HalfOpen a k, now) (Failed now') (settle cfg now' (Open now'), now')"
| forced: "breaker_step cfg (p, now) Forced (Closed 0, now)"

definition cb_phase :: "CircuitBreaker \<times> time \<Rightarrow> phase \<times> time" where
  "cb_phase = (\<lambda>(cb, now).
     (case currentState cb now of
        StateClosed \<Rightarrow> Closed (failures cb)
      | StateOpen \<Rightarrow> Open (lastFailureTime cb)
      | StateHalfOpen \<Rightarrow> HalfOpen (halfOpenRequests cb) (successes cb), now))"

lemma currentState_stored_Open:
  "state cb = StateOpen \<Longrightarrow>
   currentState cb now =
     (if expired (cb_config cb) (lastFailureTime cb) now then StateHalfOpen else StateOpen)"
  by (simp add: currentState_def expired_def)

lemma phase_settle:
  assumes "cb_inv cfg (cb, now)" and "now \<le> now'"
  shows "cb_phase (cb, now') = (settle cfg now' (fst (cb_phase (cb, now))), now')"
proof (cases "currentState cb now")
  case StateClosed
  then show ?thesis by (simp add: cb_phase_def currentState_Closed_iff)
next
  case StateHalfOpen
  with currentState_HalfOpen_later [OF this assms(2)] show ?thesis by (simp add: cb_phase_def)
next
  case StateOpen
  then have "state cb = StateOpen" and "cb_config cb = cfg"
    using assms(1) by (auto simp: cb_inv_def currentState_def split: State.splits)
  with StateOpen assms show ?thesis
    by (auto simp: cb_phase_def cb_inv_def currentState_stored_Open split: if_splits)
qed

lemma phase_tick:
  assumes "cb_inv cfg (cb, now)" and "now \<le> now'"
  shows "breaker_step cfg (cb_phase (cb, now)) (Tick now') (cb_phase (cb, now'))"
proof -
  obtain p where p: "cb_phase (cb, now) = (p, now)" by (simp add: cb_phase_def)
  with tick [OF assms(2), of cfg p] phase_settle [OF assms] show ?thesis by simp
qed

lemma phase_trip:
  "cb_config cb = cfg \<Longrightarrow> cb_phase (trip cb now', now') = (settle cfg now' (Open now'), now')"
  by (simp add: cb_phase_def currentState_stored_Open trip_def)

lemma phase_Allow:
  assumes "cb_inv cfg (cb, now)" and "Allow cb now = (ok, cb')"
  shows "breaker_step cfg (cb_phase (cb, now)) (Asked ok) (cb_phase (cb', now))"
proof (cases "currentState cb now")
  case StateHalfOpen
  then have st: "state cb = StateOpen" and cfg: "cb_config cb = cfg"
    using assms(1) by (auto simp: cb_inv_def currentState_def split: State.splits)
  show ?thesis
  proof (cases "halfOpenRequests cb < HalfOpenMaxRequests cfg")
    case True
    have "wrap64 (halfOpenRequests cb + 1) = halfOpenRequests cb + 1"
      using assms(1) st True by (intro wrap64_inc) (auto simp: cb_inv_def)
    with assms(2) StateHalfOpen True st cfg admit_probe [OF True, of "successes cb" now] show ?thesis
      by (auto simp: cb_phase_def Allow_def currentState_stored_Open split: if_splits)
  next
    case False
    with assms(2) StateHalfOpen cfg show ?thesis
      by (auto simp: cb_phase_def Allow_def intro: refuse_probe)
  qed
qed (use assms(2) in \<open>auto simp: Allow_def cb_phase_def intro: admit_closed refuse_open\<close>)

lemma phase_RecordSuccess:
  assumes "cb_inv cfg (cb, now)"
  shows "breaker_step cfg (cb_phase (cb, now)) Succeeded (cb_phase (RecordSuccess cb now, now))"
proof (cases "currentState cb now")
  case StateClosed
  with ok_closed [of cfg "failures cb" now] show ?thesis
    by (auto simp: cb_phase_def RecordSuccess_def currentState_Closed_iff)
next
  case StateHalfOpen
  then have st: "state cb = StateOpen" and cfg: "cb_config cb = cfg"
    using assms by (auto simp: cb_inv_def currentState_def split: State.splits)
  then have inc: "wrap64 (successes cb + 1) = successes cb + 1"
    using assms wrap64_inc [of "successes cb" "SuccessThreshold cfg"]
    by (auto simp: cb_inv_def)
  have "breaker_step cfg (HalfOpen (halfOpenRequests cb) (successes cb), now) Succeeded
     (cb_phase (RecordSuccess cb now, now))"
    using StateHalfOpen st cfg inc
    by (auto simp: cb_phase_def RecordSuccess_def Let_def currentState_stored_Open reset_def
        intro: ok_probe ok_last split: if_splits)
  then show ?thesis by (auto simp: cb_phase_def StateHalfOpen)
qed (auto simp: RecordSuccess_open cb_phase_def intro: ok_open)

lemma phase_RecordFailure:
  assumes "cb_inv cfg (cb, now)" and "now \<le> now'"
  shows "breaker_step cfg (cb_phase (cb, now)) (Failed now') (cb_phase (RecordFailure cb now now', now'))"
proof (cases "currentState cb now")
  case StateClosed
  then have st: "state cb = StateClosed" and cfg: "cb_config cb = cfg"
    using assms(1) by (simp_all add: currentState_Closed_iff cb_inv_def)
  then have inc: "wrap64 (failures cb + 1) = failures cb + 1"
    using assms(1) wrap64_inc [of "failures cb" "FailureThreshold cfg"]
    by (auto simp: cb_inv_def)
  have ph: "cb_phase (cb, now) = (Closed (failures cb), now)"
    by (simp add: cb_phase_def StateClosed)
  show ?thesis
  proof (cases "FailureThreshold cfg \<le> failures cb + 1")
    case True
    with st cfg inc have "RecordFailure cb now now' = trip (cb\<lparr>failures := failures cb + 1\<rparr>) now'"
      by (simp add: RecordFailure_def Let_def)
    with fail_trip [OF True assms(2)] ph cfg show ?thesis by (simp add: phase_trip)
  next
    case False
    with st cfg inc have "RecordFailure cb now now' = cb\<lparr>failures := failures cb + 1\<rparr>"
      by (simp add: RecordFailure_def Let_def)
    with fail_closed [of "failures cb" cfg now now'] False ph st assms(2) show ?thesis
      by (simp add: cb_phase_def)
  qed
next
  case StateHalfOpen
  then have "cb_config cb = cfg" and "cb_phase (cb, now) = (HalfOpen (halfOpenRequests cb) (successes cb), now)"
    using assms(1) by (simp_all add: cb_inv_def cb_phase_def)
  with StateHalfOpen fail_probe [OF assms(2), of cfg "halfOpenRequests cb" "successes cb"] show ?thesis
    by (simp add: RecordFailure_def phase_trip)
next
  case StateOpen
  then have ph: "cb_phase (cb, now) = (Open (lastFailureTime cb), now)" by (simp add: cb_phase_def)
  with phase_settle [OF assms] fail_open [OF assms(2), of cfg "lastFailureTime cb"] StateOpen
  show ?thesis by (simp add: RecordFailure_open)
qed

lemma phase_Reset: "breaker_step cfg (cb_phase (cb, now)) Forced (cb_phase (Reset cb, now))"
proof -
  have "cb_phase (Reset cb, now) = (Closed 0, now)"
    by (simp add: cb_phase_def Reset_def reset_def)
  moreover obtain p where "cb_phase (cb, now) = (p, now)"
    by (simp add: cb_phase_def)
  ultimately show ?thesis by (simp add: forced)
qed

interpretation cb: labelled_simulation cb_step "cb_inv cfg" "breaker_step cfg" cb_phase for cfg
proof
  fix s l t
  assume inv: "cb_inv cfg s" and "cb_step s l t"
  show "cb_inv cfg t" by (rule cb_step_inv) fact+
  from \<open>cb_step s l t\<close> inv show "breaker_step cfg (cb_phase s) l (cb_phase t)"
    by cases (auto intro: phase_tick phase_Allow phase_RecordSuccess phase_RecordFailure phase_Reset)
qed

section \<open>Sequences of calls\<close>

text \<open>
  \<open>cb_exec\<close> performs a list of calls, each with its clock readings, and counts the
  admissions; \<open>exec_run\<close> is a sequence of \<open>Execute\<close> calls, one after the other.
\<close>

datatype cb_call = CallAllow time | CallSuccess time | CallFailure time time

fun cb_call_step :: "cb_call \<Rightarrow> CircuitBreaker \<Rightarrow> bool \<times> CircuitBreaker" where
  "cb_call_step (CallAllow t) cb = Allow cb t"
| "cb_call_step (CallSuccess t) cb = (False, RecordSuccess cb t)"
| "cb_call_step (CallFailure t t') cb = (False, RecordFailure cb t t')"

fun cb_exec :: "CircuitBreaker \<Rightarrow> cb_call list \<Rightarrow> int \<times> CircuitBreaker" where
  "cb_exec cb [] = (0, cb)"
| "cb_exec cb (c # cs) =
     (let (ok, cb1) = cb_call_step c cb; (n, cb2) = cb_exec cb1 cs
      in (if ok then n + 1 else n, cb2))"

fun call_time :: "cb_call \<Rightarrow> time" where
  "call_time (CallAllow t) = t"
| "call_time (CallSuccess t) = t"
| "call_time (CallFailure t t') = t"

fun is_failure :: "cb_call \<Rightarrow> bool" where
  "is_failure (CallFailure t t') = True"
| "is_failure c = False"

fun exec_run ::
  "CircuitBreaker \<Rightarrow> (time \<times> time \<times> time \<times> go_error option) list \<Rightarrow> CircuitBreaker" where
  "exec_run cb [] = cb"
| "exec_run cb ((t1, t2, t3, fn) # xs) = exec_run (snd (Execute cb t1 t2 t3 fn)) xs"

lemma call_step_open:
  "currentState cb (call_time c) = StateOpen \<Longrightarrow> cb_call_step c cb = (False, cb)"
  by (cases c) (simp_all add: breaker_open)

lemma cb_exec_open:
  "(\<And>c. c \<in> set cs \<Longrightarrow> currentState cb (call_time c) = StateOpen) \<Longrightarrow> cb_exec cb cs = (0, cb)"
  by (induction cs) (simp_all add: call_step_open)

lemma currentState_not_expired:
  "state cb = StateOpen \<Longrightarrow> t \<le> lastFailureTime cb + Timeout (cb_config cb) \<Longrightarrow>
   int64 (Timeout (cb_config cb)) \<Longrightarrow> currentState cb t = StateOpen"
  by (auto simp: currentState_def time_sub_def int64_def)

text \<open>Once closed, a breaker stays closed until a failure is recorded.\<close>

lemma closed_call:
  "state cb = StateClosed \<Longrightarrow> \<not> is_failure c \<Longrightarrow> state (snd (cb_call_step c cb)) = StateClosed"
  by (cases c) (simp_all add: Allow_def RecordSuccess_def)

lemma closed_exec:
  "state cb = StateClosed \<Longrightarrow> \<forall>c\<in>set cs. \<not> is_failure c \<Longrightarrow>
   state (snd (cb_exec cb cs)) = StateClosed"
  by (induction cs arbitrary: cb) (auto simp: split_def Let_def closed_call)

lemma open_call_count:
  assumes "state cb = StateOpen" and "\<not> is_failure c"
    and "int64 (HalfOpenMaxRequests (cb_config cb))" and "0 \<le> halfOpenRequests cb"
    and "cb_call_step c cb = (ok, cb')" and "state cb' = StateOpen"
  shows "halfOpenRequests cb' = halfOpenRequests cb + (if ok then 1 else 0)"
    and "ok \<longrightarrow> halfOpenRequests cb' \<le> HalfOpenMaxRequests (cb_config cb)"
    and "cb_config cb' = cb_config cb"
  using assms wrap64_inc [of "halfOpenRequests cb" "HalfOpenMaxRequests (cb_config cb)"]
  by (cases c; auto simp: Allow_def RecordSuccess_def reset_def currentState_def Let_def
      split: if_splits)+

lemma call_step_keeps_state_or_closes:
  assumes "state cb = StateOpen" and "\<not> is_failure c"
  shows "state (snd (cb_call_step c cb)) \<noteq> StateHalfOpen"
  using assms
  by (cases c) (auto simp: Allow_def RecordSuccess_def reset_def currentState_def Let_def)

lemma open_exec_count:
  assumes "state cb = StateOpen" and "\<forall>c\<in>set cs. \<not> is_failure c"
    and "int64 (HalfOpenMaxRequests (cb_config cb))" and "0 \<le> halfOpenRequests cb"
    and "cb_exec cb cs = (n, cb')" and "state cb' = StateOpen"
  shows "n = halfOpenRequests cb' - halfOpenRequests cb \<and> 0 \<le> n \<and>
    (n = 0 \<or> halfOpenRequests cb' \<le> HalfOpenMaxRequests (cb_config cb))"
  using assms
proof (induction cs arbitrary: cb n)
  case Nil
  then show ?case by auto
next
  case (Cons c cs)
  obtain ok cb1 where c: "cb_call_step c cb = (ok, cb1)" by fastforce
  obtain m cb2 where cs: "cb_exec cb1 cs = (m, cb2)" by fastforce
  from Cons.prems c cs have n: "n = (if ok then m + 1 else m)" and cb2: "cb2 = cb'"
    by simp_all
  have "state cb1 \<noteq> StateClosed"
    using closed_exec [of cb1 cs] Cons.prems(2,6) cs cb2 by auto
  moreover have "state cb1 \<noteq> StateHalfOpen"
    using call_step_keeps_state_or_closes [of cb c] Cons.prems(1,2) c by auto
  ultimately have st: "state cb1 = StateOpen" by (cases "state cb1") auto
  note one = open_call_count [OF Cons.prems(1) _ Cons.prems(3,4) c st]
  have "m = halfOpenRequests cb2 - halfOpenRequests cb1 \<and> 0 \<le> m \<and>
      (m = 0 \<or> halfOpenRequests cb2 \<le> HalfOpenMaxRequests (cb_config cb1))"
    using Cons.IH [OF st _ _ _ cs [unfolded cb2]] one Cons.prems cb2 by auto
  with n one Cons.prems(2) cb2 show ?case by (cases ok) auto
qed

text \<open>Consecutive failures of a closed breaker.\<close>

lemma RecordFailure_open_stays:
  "state cb = StateOpen \<Longrightarrow> state (RecordFailure cb t t') = StateOpen"
  by (auto simp: RecordFailure_def trip_def currentState_def)

lemma failures_exec_open:
  "state cb = StateOpen \<Longrightarrow>
   state (snd (cb_exec cb (map (\<lambda>p. CallFailure (fst p) (snd p)) ts))) = StateOpen"
  by (induction ts arbitrary: cb) (auto simp: split_def Let_def RecordFailure_open_stays)

lemma failures_exec_closed:
  assumes "state cb = StateClosed" and "int64 (FailureThreshold (cb_config cb))"
    and "0 \<le> failures cb" and "failures cb < FailureThreshold (cb_config cb)"
  shows "(state (snd (cb_exec cb (map (\<lambda>p. CallFailure (fst p) (snd p)) ts))) = StateOpen) =
    (FailureThreshold (cb_config cb) \<le> failures cb + int (length ts))"
  using assms
proof (induction ts arbitrary: cb)
  case Nil
  then show ?case by simp
next
  case (Cons tt ts)
  obtain t t' where tt: "tt = (t, t')" by fastforce
  have inc: "wrap64 (failures cb + 1) = failures cb + 1"
    using Cons.prems by (intro wrap64_inc) auto
  show ?case
  proof (cases "FailureThreshold (cb_config cb) \<le> failures cb + 1")
    case True
    then have "state (RecordFailure cb t t') = StateOpen"
      using Cons.prems inc by (simp add: RecordFailure_def Let_def trip_def)
    with True tt show ?thesis by (simp add: split_def Let_def failures_exec_open)
  next
    case False
    then have "RecordFailure cb t t' = cb\<lparr>failures := failures cb + 1\<rparr>"
      using Cons.prems inc by (simp add: RecordFailure_def Let_def)
    with Cons.IH [of "cb\<lparr>failures := failures cb + 1\<rparr>"] False Cons.prems tt show ?thesis
      by (simp add: split_def Let_def algebra_simps)
  qed
qed

text \<open>
  One caller after the other: then successes never exceed the admitted probes, and with
  fewer probes than needed successes no sequence of outcomes closes the breaker.
\<close>

definition starved :: "CircuitBreaker \<Rightarrow> bool" where
  "starved cb \<longleftrightarrow>
     state cb = StateOpen \<and> int64 (HalfOpenMaxRequests (cb_config cb)) \<and>
     HalfOpenMaxRequests (cb_config cb) < SuccessThreshold (cb_config cb) \<and>
     0 \<le> successes cb \<and> successes cb \<le> halfOpenRequests cb \<and>
     halfOpenRequests cb \<le> HalfOpenMaxRequests (cb_config cb)"

lemma starved_trip: "starved cb \<Longrightarrow> starved (trip cb t)"
  by (simp add: starved_def trip_def)

lemma starved_admission:
  assumes "starved cb" and "Allow cb t = (ok, cb1)"
  shows "starved cb1" and "successes cb1 = successes cb"
    and "halfOpenRequests cb1 = halfOpenRequests cb + (if ok then 1 else 0)"
  using assms wrap64_inc [of "halfOpenRequests cb" "HalfOpenMaxRequests (cb_config cb)"]
  by (auto simp: starved_def Allow_def currentState_def split: if_splits)

lemma starved_success:
  assumes "starved cb" and "successes cb < halfOpenRequests cb"
  shows "starved (RecordSuccess cb t)" and "halfOpenRequests (RecordSuccess cb t) = halfOpenRequests cb"
    and "successes (RecordSuccess cb t) \<le> successes cb + 1"
proof -
  have "wrap64 (successes cb + 1) = successes cb + 1"
    using assms by (intro wrap64_inc [where y = "HalfOpenMaxRequests (cb_config cb)"])
      (auto simp: starved_def)
  with assms show "starved (RecordSuccess cb t)" "halfOpenRequests (RecordSuccess cb t) = halfOpenRequests cb"
    "successes (RecordSuccess cb t) \<le> successes cb + 1"
    by (auto simp: starved_def RecordSuccess_def currentState_def Let_def)
qed

text \<open>
  The contract between a breaker and its callers: \<open>idle\<close> holds between calls, \<open>busy\<close> from
  an admission to the recording of its outcome. \<open>guard_step\<close> is the way \<open>Execute\<close> and
  \<open>Endpoint.Forward\<close> use a breaker: ask, and if admitted record exactly one outcome.
\<close>

definition guard_step ::
  "('b \<Rightarrow> time \<Rightarrow> bool \<times> 'b) \<Rightarrow> ('b \<Rightarrow> time \<Rightarrow> 'b) \<Rightarrow> ('b \<Rightarrow> time \<Rightarrow> time \<Rightarrow> 'b) \<Rightarrow>
     time \<Rightarrow> time \<Rightarrow> time \<Rightarrow> bool \<Rightarrow> 'b \<Rightarrow> 'b" where
  "guard_step allow success failure t1 t2 t3 fails b =
     (let (ok, b1) = allow b t1
      in if \<not> ok then b1 else if fails then failure b1 t2 t3 else success b1 t2)"

locale guard_protocol =
  fixes allow :: "'b \<Rightarrow> time \<Rightarrow> bool \<times> 'b"
    and success :: "'b \<Rightarrow> time \<Rightarrow> 'b"
    and failure :: "'b \<Rightarrow> time \<Rightarrow> time \<Rightarrow> 'b"
    and idle :: "'b \<Rightarrow> bool"
    and busy :: "'b \<Rightarrow> bool"
  assumes admit: "idle b \<Longrightarrow> allow b t = (True, b') \<Longrightarrow> busy b'"
    and deny: "idle b \<Longrightarrow> allow b t = (False, b') \<Longrightarrow> idle b'"
    and succeed: "busy b \<Longrightarrow> idle (success b t)"
    and fail: "busy b \<Longrightarrow> idle (failure b t u)"
begin

lemma guard_idle: "idle b \<Longrightarrow> idle (guard_step allow success failure t1 t2 t3 fails b)"
  by (cases "allow b t1"; cases "fst (allow b t1)")
    (auto simp: guard_step_def intro: admit deny succeed fail)

lemma guards_idle:
  "idle b \<Longrightarrow>
   idle (fold (\<lambda>(t1, t2, t3, fails). guard_step allow success failure t1 t2 t3 fails) xs b)"
  by (induction xs arbitrary: b) (auto intro: guard_idle)

end

lemma Execute_guard_step:
  "snd (Execute cb t1 t2 t3 fn) = guard_step Allow RecordSuccess RecordFailure t1 t2 t3 (fn \<noteq> None) cb"
  by (auto simp: Execute_def guard_step_def split: prod.split option.split)

lemma exec_run_guard:
  "exec_run cb xs =
   fold (\<lambda>(t1, t2, t3, fails). guard_step Allow RecordSuccess RecordFailure t1 t2 t3 fails)
     (map (\<lambda>(t1, t2, t3, fn). (t1, t2, t3, fn \<noteq> None)) xs) cb"
  by (induction cb xs rule: exec_run.induct) (simp_all add: Execute_guard_step)

lemma Allow_deny: "Allow cb t = (False, cb') \<Longrightarrow> cb' = cb"
  by (auto simp: Allow_def split: State.splits if_splits)

interpretation starved: guard_protocol Allow RecordSuccess RecordFailure starved
  "\<lambda>cb. starved cb \<and> successes cb < halfOpenRequests cb"
proof
  fix cb cb' :: CircuitBreaker and t u :: time
  show "starved cb' \<and> successes cb' < halfOpenRequests cb'"
    if "starved cb" and "Allow cb t = (True, cb')"
    using starved_admission [OF that] that(1) by (simp add: starved_def)
  show "starved cb'" if "starved cb" and "Allow cb t = (False, cb')"
    using that Allow_deny by metis
  assume busy: "starved cb \<and> successes cb < halfOpenRequests cb"
  then show "starved (RecordSuccess cb t)" by (simp add: starved_success)
  from busy starved_trip show "starved (RecordFailure cb t u)"
    by (auto simp: RecordFailure_def currentState_def starved_def)
qed

lemma starved_run: "starved cb \<Longrightarrow> starved (exec_run cb xs)"
  by (simp add: exec_run_guard starved.guards_idle)

text \<open>
  Concurrent callers: any number of calls may be in flight. \<open>probes_only\<close> is the condition on a
  sequence of calls that every recorded success belongs to a call admitted since the last trip:
  \<open>k\<close> such calls have not yet recorded a success, and a failed probe, which trips the breaker
  again, makes all of them late. Failures are not restricted.
\<close>

fun probes_only :: "CircuitBreaker \<Rightarrow> nat \<Rightarrow> cb_call list \<Rightarrow> bool" where
  "probes_only cb k [] = True"
| "probes_only cb k (CallAllow t # cs) =
     (let (ok, cb1) = Allow cb t in probes_only cb1 (if ok then Suc k else k) cs)"
| "probes_only cb k (CallSuccess t # cs) = (0 < k \<and> probes_only (RecordSuccess cb t) (k - 1) cs)"
| "probes_only cb k (CallFailure t t' # cs) =
     probes_only (RecordFailure cb t t') (if currentState cb t = StateHalfOpen then 0 else k) cs"

lemma starved_exec:
  "starved cb \<Longrightarrow> successes cb + int k \<le> halfOpenRequests cb \<Longrightarrow> probes_only cb k cs \<Longrightarrow>
     starved (snd (cb_exec cb cs))"
proof (induction cb k cs rule: probes_only.induct)
  case (2 cb k t cs)
  obtain ok cb1 where a: "Allow cb t = (ok, cb1)" by fastforce
  note n = starved_admission [OF "2.prems"(1) a]
  with "2.prems" a have "starved (snd (cb_exec cb1 cs))"
    by (intro "2.IH" [OF a [symmetric] refl]) auto
  with a show ?case by (simp add: split_def Let_def)
next
  case (3 cb k t cs)
  then have "0 < k" and "successes cb < halfOpenRequests cb" by auto
  note s = starved_success [OF "3.prems"(1) this(2), of t]
  have "starved (snd (cb_exec (RecordSuccess cb t) cs))"
    using s "3.prems" \<open>0 < k\<close> by (intro "3.IH") (auto simp: of_nat_diff)
  then show ?case by (simp add: split_def Let_def)
next
  case (4 cb k t t' cs)
  have "starved (snd (cb_exec (RecordFailure cb t t') cs))"
    using "4.prems" starved_trip [of cb t']
    by (intro "4.IH") (auto simp: RecordFailure_def currentState_def starved_def trip_def)
  then show ?case by (simp add: split_def Let_def)
qed simp

text \<open>With enough probes, successful calls close it.\<close>

definition probe_ok :: "CircuitBreaker \<Rightarrow> time \<times> time \<times> time \<times> go_error option \<Rightarrow> bool" where
  "probe_ok cb = (\<lambda>(t1, t2, t3, fn).
     expired (cb_config cb) (lastFailureTime cb) t1 \<and> t1 \<le> t2 \<and> fn = None)"

lemma Execute_probe:
  assumes "state cb = StateOpen" and "probe_ok cb (t1, t2, t3, fn)"
    and "halfOpenRequests cb = k" and "successes cb = k" and "0 \<le> k"
    and "k < SuccessThreshold (cb_config cb)"
    and "SuccessThreshold (cb_config cb) \<le> HalfOpenMaxRequests (cb_config cb)"
    and "int64 (HalfOpenMaxRequests (cb_config cb))"
  shows "Execute cb t1 t2 t3 fn = (None,
     if SuccessThreshold (cb_config cb) = k + 1
     then reset (cb\<lparr>halfOpenRequests := k + 1, successes := k + 1\<rparr>)
     else cb\<lparr>halfOpenRequests := k + 1, successes := k + 1\<rparr>)"
proof -
  have inc: "wrap64 (k + 1) = k + 1"
    using assms by (intro wrap64_inc [where y = "HalfOpenMaxRequests (cb_config cb)"]) auto
  have "currentState cb t1 = StateHalfOpen"
    using assms(1,2) by (simp add: currentState_stored_Open probe_ok_def)
  moreover have "currentState (cb\<lparr>halfOpenRequests := k + 1\<rparr>) t2 = StateHalfOpen"
    using calculation currentState_HalfOpen_later [of cb t1 t2] assms(1,2)
    by (simp add: probe_ok_def currentState_def)
  ultimately show ?thesis
    using assms inc by (auto simp: Execute_def Allow_def RecordSuccess_def probe_ok_def Let_def)
qed

lemma recover_run:
  assumes "state cb = StateOpen" and "halfOpenRequests cb = k" and "successes cb = k"
    and "0 \<le> k" and "k + int (length xs) = SuccessThreshold (cb_config cb)" and "xs \<noteq> []"
    and "SuccessThreshold (cb_config cb) \<le> HalfOpenMaxRequests (cb_config cb)"
    and "int64 (HalfOpenMaxRequests (cb_config cb))" and "\<forall>x\<in>set xs. probe_ok cb x"
  shows "state (exec_run cb xs) = StateClosed \<and> failures (exec_run cb xs) = 0"
  using assms
proof (induction xs arbitrary: cb k)
  case Nil
  then show ?case by simp
next
  case (Cons x xs)
  obtain t1 t2 t3 fn where x: "x = (t1, t2, t3, fn)" by (cases x) auto
  define cb1 where "cb1 = cb\<lparr>halfOpenRequests := k + 1, successes := k + 1\<rparr>"
  have e: "Execute cb t1 t2 t3 fn =
      (None, if SuccessThreshold (cb_config cb) = k + 1 then reset cb1 else cb1)"
    unfolding cb1_def using Cons.prems x by (intro Execute_probe) auto
  show ?case
  proof (cases "xs = []")
    case True
    with Cons.prems e x show ?thesis by (simp add: reset_def)
  next
    case False
    with Cons.prems have "SuccessThreshold (cb_config cb) \<noteq> k + 1" by auto
    moreover have "\<forall>y\<in>set xs. probe_ok cb1 y"
      using Cons.prems(9) by (auto simp: cb1_def probe_ok_def)
    then have "state (exec_run cb1 xs) = StateClosed \<and> failures (exec_run cb1 xs) = 0"
      using False Cons.prems by (intro Cons.IH [of cb1 "k + 1"]) (simp_all add: cb1_def)
    ultimately show ?thesis using e x by simp
  qed
qed

lemma default_thresholds:
  "int64 (FailureThreshold DefaultCircuitBreakerConfig)"
  "int64 (SuccessThreshold DefaultCircuitBreakerConfig)"
  "int64 (HalfOpenMaxRequests DefaultCircuitBreakerConfig)"
  by (simp_all add: DefaultCircuitBreakerConfig_def int64_def)

section \<open>Properties\<close>

text \<open>
  C1. Every run of the breaker, whatever the order of its calls and the clock readings, is step
  by step a run of the three-phase breaker with the same labels: every verdict of \<open>Allow\<close>, every
  change of phase and every counter are those \<open>breaker_step\<close> prescribes. Computing half-open
  from the clock instead of storing it loses no transition and adds none.
\<close>

theorem breaker_refines_phases:
  assumes "int64 (FailureThreshold cfg)" and "int64 (SuccessThreshold cfg)"
    and "int64 (HalfOpenMaxRequests cfg)"
    and "trace cb_step (NewCircuitBreaker cfg, t0) ls s"
  shows "trace (breaker_step cfg) (Closed 0, t0) ls (cb_phase s)"
proof -
  have "cb_phase (NewCircuitBreaker cfg, t0) = (Closed 0, t0)"
    by (simp add: cb_phase_def NewCircuitBreaker_def)
  with cb.trace_sim [OF assms(4) cb_inv_new [OF assms(1-3)]] show ?thesis by simp
qed

text \<open>One failure trips, the next call is refused, a probe is admitted after the timeout, a second is not.\<close>

definition sample_breaker_config :: CircuitBreakerConfig where
  "sample_breaker_config = \<lparr>FailureThreshold = 1, SuccessThreshold = 1, Timeout = 10, HalfOpenMaxRequests = 1\<rparr>"

definition sample_breaker :: CircuitBreaker where
  "sample_breaker = trip (NewCircuitBreaker sample_breaker_config\<lparr>failures := 1\<rparr>) 7"

lemma sample_breaker_trace:
  "trace cb_step (NewCircuitBreaker sample_breaker_config, 0)
     [Asked True, Failed 7, Asked False, Tick 18, Asked True, Asked False]
     (sample_breaker\<lparr>halfOpenRequests := 1\<rparr>, 18)"
proof -
  let ?n = "NewCircuitBreaker sample_breaker_config" and ?s = sample_breaker
  have "cb_step (?n, 0) (Asked True) (?n, 0)" by (rule cb_allow) code_simp
  moreover have "RecordFailure ?n 0 7 = ?s" by code_simp
  then have "cb_step (?n, 0) (Failed 7) (?s, 7)" using cb_failure [of 0 7 ?n] by simp
  moreover have "cb_step (?s, 7) (Asked False) (?s, 7)" by (rule cb_allow) code_simp
  moreover have "cb_step (?s, 7) (Tick 18) (?s, 18)" by (rule cb_tick) simp
  moreover have "cb_step (?s, 18) (Asked True) (?s\<lparr>halfOpenRequests := 1\<rparr>, 18)"
    by (rule cb_allow) code_simp
  moreover have "cb_step (?s\<lparr>halfOpenRequests := 1\<rparr>, 18) (Asked False) (?s\<lparr>halfOpenRequests := 1\<rparr>, 18)"
    by (rule cb_allow) code_simp
  ultimately show ?thesis by (meson trace_Cons trace_Nil)
qed

theorem breaker_refines_phases_witness:
  "trace (breaker_step sample_breaker_config) (Closed 0, 0)
     [Asked True, Failed 7, Asked False, Tick 18, Asked True, Asked False] (HalfOpen 1 0, 18)"
proof -
  have "cb_phase (sample_breaker\<lparr>halfOpenRequests := 1\<rparr>, 18) = (HalfOpen 1 0, 18)" by code_simp
  with breaker_refines_phases [OF _ _ _ sample_breaker_trace] show ?thesis
    by (simp add: sample_breaker_config_def int64_def)
qed

text \<open>
  In every reachable state half-open is not stored, the failure count of a closed
  breaker is below \<open>FailureThreshold\<close>, and the counters of an open one are below
  \<open>SuccessThreshold\<close> and at most \<open>HalfOpenMaxRequests\<close>; so no increment ever wraps.
\<close>

lemma breaker_counters_bounded:
  assumes "int64 (FailureThreshold cfg)" and "int64 (SuccessThreshold cfg)"
    and "int64 (HalfOpenMaxRequests cfg)"
    and "trace cb_step (NewCircuitBreaker cfg, t0) ls (cb, now)"
  shows "state cb \<noteq> StateHalfOpen \<and>
    (state cb = StateClosed \<longrightarrow> failures cb = 0 \<or> failures cb < FailureThreshold cfg) \<and>
    (successes cb = 0 \<or> successes cb < SuccessThreshold cfg) \<and>
    (halfOpenRequests cb = 0 \<or> halfOpenRequests cb \<le> HalfOpenMaxRequests cfg)"
proof -
  have inv: "cb_inv cfg (cb, now)"
    using assms(4) cb_inv_new [OF assms(1-3)] by (rule cb.trace_inv)
  then show ?thesis by (cases "state cb") (auto simp: cb_inv_def)
qed

lemma breaker_counters_bounded_witness:
  "state (sample_breaker\<lparr>halfOpenRequests := 1\<rparr>) \<noteq> StateHalfOpen"
  by (rule breaker_counters_bounded [OF _ _ _ sample_breaker_trace, THEN conjunct1])
    (simp_all add: sample_breaker_config_def int64_def)

text \<open>
  C9. From a trip until its timeout has passed, every call is rejected and no outcome
  recorded in that window changes the breaker.
\<close>

theorem open_window_admits_nothing:
  assumes "int64 (Timeout (cb_config cb))"
    and "\<forall>c\<in>set cs. call_time c \<le> t0 + Timeout (cb_config cb)"
  shows "cb_exec (trip cb t0) cs = (0, trip cb t0)"
  using assms by (intro cb_exec_open currentState_not_expired) (simp_all add: trip_def)

theorem open_window_admits_nothing_witness:
  "cb_exec (trip (NewCircuitBreaker DefaultCircuitBreakerConfig) 5)
     [CallAllow 6, CallSuccess 8, CallFailure 9 9, CallAllow 30000000005]
   = (0, trip (NewCircuitBreaker DefaultCircuitBreakerConfig) 5)"
  by (rule open_window_admits_nothing)
    (simp_all add: NewCircuitBreaker_def DefaultCircuitBreakerConfig_def int64_def)

text \<open>
  C8. From a trip on, as long as no failure is recorded and the breaker has not closed, it
  admits at most \<open>HalfOpenMaxRequests\<close> calls, however many ask and whenever they ask.
\<close>

theorem half_open_probe_bound:
  assumes "\<forall>c\<in>set cs. \<not> is_failure c" and "int64 (HalfOpenMaxRequests (cb_config cb))"
    and "cb_exec (trip cb t0) cs = (n, cb')" and "state cb' = StateOpen"
  shows "n \<le> max 0 (HalfOpenMaxRequests (cb_config cb))"
  using open_exec_count [of "trip cb t0" cs n cb'] assms by (auto simp: trip_def)

theorem half_open_probe_bound_witness:
  "fst (cb_exec (trip (NewCircuitBreaker DefaultCircuitBreakerConfig) 0)
     (replicate 5 (CallAllow 30000000001))) \<le> (3::int)"
proof -
  let ?cb = "NewCircuitBreaker DefaultCircuitBreakerConfig"
  let ?r = "cb_exec (trip ?cb 0) (replicate 5 (CallAllow 30000000001))"
  have "fst ?r \<le> max 0 (HalfOpenMaxRequests (cb_config ?cb))"
  proof (rule half_open_probe_bound)
    show "?r = (fst ?r, snd ?r)" by simp
    show "state (snd ?r) = StateOpen" by code_simp
  qed (simp_all add: NewCircuitBreaker_def DefaultCircuitBreakerConfig_def int64_def)
  then show ?thesis by (simp add: NewCircuitBreaker_def DefaultCircuitBreakerConfig_def)
qed

text \<open>
  C10. Consecutive failures of a new breaker open it exactly when their number reaches
  \<open>FailureThreshold\<close>: not one earlier, and without needing one more.
\<close>

theorem trips_at_threshold:
  assumes "1 \<le> FailureThreshold cfg" and "int64 (FailureThreshold cfg)"
  shows "(state (snd (cb_exec (NewCircuitBreaker cfg)
            (map (\<lambda>p. CallFailure (fst p) (snd p)) ts))) = StateOpen) =
         (FailureThreshold cfg \<le> int (length ts))"
  using failures_exec_closed [of "NewCircuitBreaker cfg" ts] assms
  by (simp add: NewCircuitBreaker_def)

theorem trips_at_threshold_witness:
  "state (snd (cb_exec (NewCircuitBreaker DefaultCircuitBreakerConfig)
     (map (\<lambda>p. CallFailure (fst p) (snd p)) [(1,1), (2,2), (3,3), (4,4), (5,5)]))) = StateOpen"
  by (subst trips_at_threshold) (simp_all add: DefaultCircuitBreakerConfig_def int64_def)

text \<open>
  C11. After the timeout, \<open>SuccessThreshold\<close> successful calls in a row close the breaker
  and clear its failure count, provided no more successes are asked than probes allowed.
\<close>

theorem recovers_after_successes:
  assumes "1 \<le> SuccessThreshold (cb_config cb)"
    and "SuccessThreshold (cb_config cb) \<le> HalfOpenMaxRequests (cb_config cb)"
    and "int64 (HalfOpenMaxRequests (cb_config cb))"
    and "int (length xs) = SuccessThreshold (cb_config cb)"
    and "\<forall>(t1, t2, t3, fn)\<in>set xs. expired (cb_config cb) t0 t1 \<and> t1 \<le> t2 \<and> fn = None"
  shows "state (exec_run (trip cb t0) xs) = StateClosed \<and>
    failures (exec_run (trip cb t0) xs) = 0"
proof (rule recover_run [where k = 0])
  show "xs \<noteq> []" using assms(1,4) by auto
  show "\<forall>x\<in>set xs. probe_ok (trip cb t0) x"
    using assms(5) by (auto simp: probe_ok_def trip_def)
qed (use assms in \<open>simp_all add: trip_def\<close>)

theorem recovers_after_successes_witness:
  "state (exec_run (trip (NewCircuitBreaker DefaultCircuitBreakerConfig) 0)
     [(30000000001, 30000000002, 0, None), (30000000003, 30000000004, 0, None)]) = StateClosed"
  by (rule recovers_after_successes [THEN conjunct1])
    (simp_all add: NewCircuitBreaker_def DefaultCircuitBreakerConfig_def int64_def
      expired_def time_sub_def)

text \<open>
  C12. A breaker configured with more required successes than half-open requests stays open for
  ever after a trip, whatever the outcomes and however long the callers wait: when callers run
  one after the other through \<open>Execute\<close>, and also when any number of them run concurrently,
  as long as each recorded success belongs to a call admitted since the last trip and nobody
  calls \<open>Reset\<close>. Nothing checks such a configuration. (A success of a call that was admitted
  before the trip and reports late does count, see \<open>late_success_closes\<close>.)
\<close>

theorem starved_breaker_never_closes:
  assumes "HalfOpenMaxRequests (cb_config cb) < SuccessThreshold (cb_config cb)"
    and "0 \<le> HalfOpenMaxRequests (cb_config cb)"
    and "int64 (HalfOpenMaxRequests (cb_config cb))"
  shows "state (exec_run (trip cb t0) xs) = StateOpen \<and>
    (probes_only (trip cb t0) 0 cs \<longrightarrow> state (snd (cb_exec (trip cb t0) cs)) = StateOpen)"
proof -
  have st: "starved (trip cb t0)" using assms by (simp add: starved_def trip_def)
  then have "starved (exec_run (trip cb t0) xs)" by (rule starved_run)
  moreover have "starved (snd (cb_exec (trip cb t0) cs))" if "probes_only (trip cb t0) 0 cs"
    using starved_exec [OF st _ that] by (simp add: trip_def)
  ultimately show ?thesis by (auto simp: starved_def)
qed

definition starved_sample :: CircuitBreaker where
  "starved_sample = trip (NewCircuitBreaker (DefaultCircuitBreakerConfig\<lparr>SuccessThreshold := 5\<rparr>)) 0"

definition starved_calls :: "cb_call list" where
  "starved_calls =
     replicate 4 (CallAllow 40000000000) @ replicate 3 (CallSuccess 40000000001) @ [CallFailure 1 2]"

theorem starved_breaker_never_closes_witness:
  "state (exec_run starved_sample (replicate 10 (40000000000, 40000000000, 40000000000, None))) = StateOpen \<and>
   successes (snd (cb_exec starved_sample starved_calls)) = 3 \<and>
   state (snd (cb_exec starved_sample starved_calls)) = StateOpen"
proof -
  let ?cb = "NewCircuitBreaker (DefaultCircuitBreakerConfig\<lparr>SuccessThreshold := 5\<rparr>)"
  have c: "HalfOpenMaxRequests (cb_config ?cb) < SuccessThreshold (cb_config ?cb)"
      "0 \<le> HalfOpenMaxRequests (cb_config ?cb)" "int64 (HalfOpenMaxRequests (cb_config ?cb))"
    by (simp_all add: NewCircuitBreaker_def DefaultCircuitBreakerConfig_def int64_def)
  have "probes_only starved_sample 0 starved_calls" by code_simp
  moreover have "successes (snd (cb_exec starved_sample starved_calls)) = 3" by code_simp
  ultimately show ?thesis
    using starved_breaker_never_closes [OF c, where ?t0.0 = 0, folded starved_sample_def] by blast
qed

text \<open>The successes of two calls admitted before the trip close the same breaker.\<close>

lemma late_success_closes:
  "let cb = NewCircuitBreaker (DefaultCircuitBreakerConfig\<lparr>FailureThreshold := 1, HalfOpenMaxRequests := 1\<rparr>);
       cs = [CallAllow 0, CallAllow 0, CallAllow 0, CallFailure 1 1, CallSuccess 40000000000, CallSuccess 40000000000]
   in state (snd (cb_exec cb (take 4 cs))) = StateOpen \<and> state (snd (cb_exec cb cs)) = StateClosed"
  by code_simp

end
