(* ===== verification/Config.thy ===== *)
theory Config
  imports Prelude
begin

text \<open>
  \<open>internal/config/config.go\<close>: the configuration records, the defaults \<open>Load\<close> fills in and
  \<open>IsCacheableMethod\<close>. Reading the file and \<open>yaml.Unmarshal\<close> are parameters of \<open>Load\<close>.
  A Go map is an association list whose order is the order in which the runtime iterates
  it in the run considered; theorems hold for every order. A map of pointers may hold nil
  (\<open>None\<close>), which a YAML key without a value decodes to.
\<close>

type_synonym 'v gomap = "(string \<times> 'v) list"

record ClientTLSConfig =
  ctls_Enabled :: bool
  ctls_InsecureSkipVerify :: bool
  ctls_CAFile :: string
  ctls_CertFile :: string
  ctls_KeyFile :: string

record TLSConfig =
  tls_Enabled :: bool
  tls_CertFile :: string
  tls_KeyFile :: string
  tls_ClientTLS :: ClientTLSConfig

record GRPCConfig =
  grpc_Enabled :: bool
  grpc_Port :: int
  grpc_TLS :: TLSConfig

record ServerConfig =
  srv_Port :: int
  srv_ReadTimeout :: duration
  srv_WriteTimeout :: duration
  srv_TLS :: TLSConfig

record RedisConfig =
  redis_Addr :: string
  redis_Password :: string
  redis_DB :: int

record MetricsConfig =
  met_Enabled :: bool
  met_Port :: int

record RateLimitConfig =
  rl_Enabled :: bool
  rl_RequestsPerSecond :: int
  rl_Burst :: int
  rl_Strategy :: string
  rl_PerIP :: bool

record CacheConfig =
  cch_Enabled :: bool
  cch_TTL :: duration
  cch_CacheableMethods :: "string list"

record HTTPPoolConfig =
  MaxIdleConns :: int
  MaxIdleConnsPerHost :: int
  MaxConnsPerHost :: int
  IdleConnTimeout :: duration

record EndpointConfig =
  epc_URL :: string
  epc_Weight :: int

record HealthCheckConfig =
  hc_Interval :: duration
  hc_Timeout :: duration
  hc_MaxBlockLag :: int

text \<open>\<open>config.CircuitBreakerConfig\<close>; \<open>internal/chain\<close> has its own record of that name.\<close>

record CircuitBreakerSection =
  cbs_Enabled :: bool
  cbs_FailureThreshold :: int
  cbs_SuccessThreshold :: int
  cbs_Timeout :: duration
  cbs_HalfOpenMaxRequests :: int

record ChainConfig =
  cc_ChainID :: int
  cc_Endpoints :: "EndpointConfig list"
  cc_HealthCheck :: HealthCheckConfig
  cc_CircuitBreaker :: CircuitBreakerSection
  cc_HTTPPool :: HTTPPoolConfig
  cc_RateLimit :: "RateLimitConfig option"

record Config =
  cfg_Server :: ServerConfig
  cfg_GRPC :: GRPCConfig
  cfg_Redis :: RedisConfig
  cfg_Metrics :: MetricsConfig
  cfg_RateLimit :: RateLimitConfig
  cfg_Cache :: CacheConfig
  cfg_Chains :: "ChainConfig option gomap"

section \<open>Load\<close>

abbreviation second :: duration where "second \<equiv> 1000000000"

definition or_default :: "int \<Rightarrow> int \<Rightarrow> int" where
  "or_default d x = (if x = 0 then d else x)"

definition server_defaults :: "Config \<Rightarrow> Config" where
  "server_defaults cfg = cfg
     \<lparr>cfg_Server := (cfg_Server cfg)
        \<lparr>srv_Port := or_default 8080 (srv_Port (cfg_Server cfg)),
         srv_ReadTimeout := or_default (30 * second) (srv_ReadTimeout (cfg_Server cfg)),
         srv_WriteTimeout := or_default (30 * second) (srv_WriteTimeout (cfg_Server cfg))\<rparr>,
      cfg_Metrics := (cfg_Metrics cfg)\<lparr>met_Port := or_default 9090 (met_Port (cfg_Metrics cfg))\<rparr>,
      cfg_GRPC := (cfg_GRPC cfg)\<lparr>grpc_Port := or_default 9000 (grpc_Port (cfg_GRPC cfg))\<rparr>,
      cfg_Cache := (cfg_Cache cfg)\<lparr>cch_TTL := or_default (60 * second) (cch_TTL (cfg_Cache cfg))\<rparr>\<rparr>"

definition pool_defaults :: "HTTPPoolConfig \<Rightarrow> HTTPPoolConfig" where
  "pool_defaults p = p
     \<lparr>MaxIdleConns := or_default 100 (MaxIdleConns p),
      MaxIdleConnsPerHost := or_default 100 (MaxIdleConnsPerHost p),
      IdleConnTimeout := or_default (90 * second) (IdleConnTimeout p)\<rparr>"

text \<open>The loop dereferences every chain; a nil one panics.\<close>

fun chain_defaults :: "ChainConfig option gomap \<Rightarrow> ChainConfig option gomap outcome" where
  "chain_defaults [] = Return []"
| "chain_defaults ((name, None) # cs) = Panic ''nil pointer dereference''"
| "chain_defaults ((name, Some c) # cs) =
     (case chain_defaults cs of
        Panic e \<Rightarrow> Panic e
      | Return cs' \<Rightarrow>
          Return ((name, Some (c\<lparr>cc_HTTPPool := pool_defaults (cc_HTTPPool c)\<rparr>)) # cs'))"

definition Load ::
  "(string \<Rightarrow> go_error + bytes) \<Rightarrow> (bytes \<Rightarrow> go_error + Config) \<Rightarrow> string \<Rightarrow>
     (go_error + Config) outcome" where
  "Load readFile unmarshal path =
     (case readFile path of
        Inl err \<Rightarrow> Return (Inl err)
      | Inr data \<Rightarrow>
          (case unmarshal data of
             Inl err \<Rightarrow> Return (Inl err)
           | Inr cfg \<Rightarrow>
               (let cfg = server_defaults cfg
                in case chain_defaults (cfg_Chains cfg) of
                     Panic e \<Rightarrow> Panic e
                   | Return cs \<Rightarrow> Return (Inr (cfg\<lparr>cfg_Chains := cs\<rparr>)))))"

fun has_method :: "string list \<Rightarrow> string \<Rightarrow> bool" where
  "has_method [] method = False"
| "has_method (m # ms) method = (if m = method then True else has_method ms method)"

definition IsCacheableMethod :: "CacheConfig \<Rightarrow> string \<Rightarrow> bool" where
  "IsCacheableMethod c method = has_method (cch_CacheableMethods c) method"

section \<open>Facts about the defaults\<close>

lemma or_default_nonzero [simp]: "d \<noteq> 0 \<Longrightarrow> or_default d x \<noteq> 0"
  by (simp add: or_default_def)

lemma or_default_id [simp]: "x \<noteq> 0 \<Longrightarrow> or_default d x = x"
  by (simp add: or_default_def)

lemma pool_defaults_idem [simp]: "pool_defaults (pool_defaults p) = pool_defaults p"
  by (simp add: pool_defaults_def or_default_def)

lemma server_defaults_idem [simp]: "server_defaults (server_defaults c) = server_defaults c"
  by (simp add: server_defaults_def or_default_def)

lemma server_defaults_chains [simp]: "cfg_Chains (server_defaults c) = cfg_Chains c"
  by (simp add: server_defaults_def)

definition with_pool_defaults :: "ChainConfig \<Rightarrow> ChainConfig" where
  "with_pool_defaults c = c\<lparr>cc_HTTPPool := pool_defaults (cc_HTTPPool c)\<rparr>"

lemma chain_defaults_eq:
  "chain_defaults cs =
     (if \<forall>(name, c)\<in>set cs. c \<noteq> None
      then Return (map (\<lambda>(name, c). (name, map_option with_pool_defaults c)) cs)
      else Panic ''nil pointer dereference'')"
  by (induction cs rule: chain_defaults.induct) (auto simp: with_pool_defaults_def)

lemma has_method_set: "has_method ms m = (m \<in> set ms)"
  by (induction ms) auto

section \<open>Properties\<close>

text \<open>What \<open>Load\<close> promises about the result for a parsed file.\<close>

definition filled :: "int \<Rightarrow> int \<Rightarrow> bool" where
  "filled x y \<longleftrightarrow> y \<noteq> 0 \<and> (x \<noteq> 0 \<longrightarrow> y = x)"

definition pool_filled :: "HTTPPoolConfig \<Rightarrow> HTTPPoolConfig \<Rightarrow> bool" where
  "pool_filled p q \<longleftrightarrow>
     filled (MaxIdleConns p) (MaxIdleConns q) \<and>
     filled (MaxIdleConnsPerHost p) (MaxIdleConnsPerHost q) \<and>
     filled (IdleConnTimeout p) (IdleConnTimeout q) \<and> MaxConnsPerHost q = MaxConnsPerHost p"

lemma filled_or_default [simp]: "d \<noteq> 0 \<Longrightarrow> filled x (or_default d x)"
  by (simp add: filled_def or_default_def)

lemma pool_filled_defaults [simp]: "pool_filled p (pool_defaults p)"
  by (simp add: pool_filled_def pool_defaults_def)

text \<open>
  When the file can be read and parsed and no chain is nil, \<open>Load\<close> succeeds: ports,
  server timeouts, cache TTL and pool sizes are non-zero in the result and equal to the
  file's value wherever that is non-zero, and a second pass over the result changes
  nothing.
\<close>

lemma Load_fills_defaults:
  assumes "readFile path = Inr data" and "unmarshal data = Inr raw"
    and "\<forall>(name, c)\<in>set (cfg_Chains raw). c \<noteq> None"
  shows "\<exists>cfg. Load readFile unmarshal path = Return (Inr cfg) \<and>
    filled (srv_Port (cfg_Server raw)) (srv_Port (cfg_Server cfg)) \<and>
    filled (srv_ReadTimeout (cfg_Server raw)) (srv_ReadTimeout (cfg_Server cfg)) \<and>
    filled (srv_WriteTimeout (cfg_Server raw)) (srv_WriteTimeout (cfg_Server cfg)) \<and>
    filled (met_Port (cfg_Metrics raw)) (met_Port (cfg_Metrics cfg)) \<and>
    filled (grpc_Port (cfg_GRPC raw)) (grpc_Port (cfg_GRPC cfg)) \<and>
    filled (cch_TTL (cfg_Cache raw)) (cch_TTL (cfg_Cache cfg)) \<and>
    map fst (cfg_Chains cfg) = map fst (cfg_Chains raw) \<and>
    (\<forall>i < length (cfg_Chains raw).
       pool_filled (cc_HTTPPool (the (snd (cfg_Chains raw ! i))))
         (cc_HTTPPool (the (snd (cfg_Chains cfg ! i))))) \<and>
    Load readFile (\<lambda>_. Inr cfg) path = Return (Inr cfg)"
proof -
  let ?cs = "map (\<lambda>(name, c). (name, map_option with_pool_defaults c)) (cfg_Chains raw)"
  let ?cfg = "(server_defaults raw)\<lparr>cfg_Chains := ?cs\<rparr>"
  have "Load readFile unmarshal path = Return (Inr ?cfg)"
    using assms by (simp add: Load_def chain_defaults_eq Let_def)
  moreover have idem: "server_defaults ?cfg = ?cfg"
    by (simp add: server_defaults_def or_default_def)
  moreover have "chain_defaults ?cs = Return ?cs"
    using assms(3) by (auto simp: chain_defaults_eq with_pool_defaults_def option.map_comp o_def)
  then have "Load readFile (\<lambda>_. Inr ?cfg) path = Return (Inr ?cfg)"
    using assms(1) idem by (simp add: Load_def Let_def)
  moreover have "pool_filled (cc_HTTPPool (the (snd (cfg_Chains raw ! i))))
      (cc_HTTPPool (the (snd (?cs ! i))))" if "i < length (cfg_Chains raw)" for i
    using assms(3) that nth_mem [OF that]
    by (cases "cfg_Chains raw ! i") (auto simp: with_pool_defaults_def)
  ultimately show ?thesis
    by (intro exI [of _ ?cfg]) (auto simp: server_defaults_def comp_def split_def)
qed

definition sample_config :: Config where
  "sample_config =
     (let tls = \<lparr>tls_Enabled = False, tls_CertFile = [], tls_KeyFile = [],
            tls_ClientTLS = \<lparr>ctls_Enabled = False, ctls_InsecureSkipVerify = False,
              ctls_CAFile = [], ctls_CertFile = [], ctls_KeyFile = []\<rparr>\<rparr>
      in \<lparr>cfg_Server = \<lparr>srv_Port = 0, srv_ReadTimeout = 0, srv_WriteTimeout = 5 * second, srv_TLS = tls\<rparr>,
          cfg_GRPC = \<lparr>grpc_Enabled = False, grpc_Port = 0, grpc_TLS = tls\<rparr>,
          cfg_Redis = \<lparr>redis_Addr = [], redis_Password = [], redis_DB = 0\<rparr>,
          cfg_Metrics = \<lparr>met_Enabled = True, met_Port = 0\<rparr>,
          cfg_RateLimit = \<lparr>rl_Enabled = True, rl_RequestsPerSecond = 100, rl_Burst = 200,
            rl_Strategy = [], rl_PerIP = False\<rparr>,
          cfg_Cache = \<lparr>cch_Enabled = True, cch_TTL = 0, cch_CacheableMethods = [''eth_chainId'']\<rparr>,
          cfg_Chains = [(''ethereum'', Some
            \<lparr>cc_ChainID = 1,
             cc_Endpoints = [\<lparr>epc_URL = ''http://a'', epc_Weight = 2\<rparr>, \<lparr>epc_URL = ''http://b'', epc_Weight = 1\<rparr>],
             cc_HealthCheck = \<lparr>hc_Interval = 0, hc_Timeout = 0, hc_MaxBlockLag = 0\<rparr>,
             cc_CircuitBreaker = \<lparr>cbs_Enabled = True, cbs_FailureThreshold = 0,
               cbs_SuccessThreshold = 0, cbs_Timeout = 0, cbs_HalfOpenMaxRequests = 0\<rparr>,
             cc_HTTPPool = \<lparr>MaxIdleConns = 0, MaxIdleConnsPerHost = 7, MaxConnsPerHost = 0,
               IdleConnTimeout = 0\<rparr>,
             cc_RateLimit = None\<rparr>)]\<rparr>)"

lemma Load_fills_defaults_witness:
  "\<exists>cfg. Load (\<lambda>_. Inr ''yaml'') (\<lambda>_. Inr sample_config) ''f'' = Return (Inr cfg)"
proof -
  have "\<forall>(name, c)\<in>set (cfg_Chains sample_config). c \<noteq> None"
    by (simp add: sample_config_def Let_def)
  with Load_fills_defaults [of "\<lambda>_. Inr ''yaml''" "''f''" "''yaml''" "\<lambda>_. Inr sample_config" sample_config]
  show ?thesis by auto
qed

text \<open>
  \<open>Load\<close> sets no default for \<open>health_check\<close>: a chain keeps the interval, timeout and lag
  of the file, so an omitted interval stays 0 although the reference documents 10s.
\<close>

lemma Load_keeps_health_check:
  assumes "Load readFile unmarshal path = Return (Inr cfg)"
    and "readFile path = Inr data" and "unmarshal data = Inr raw"
    and "(name, Some c) \<in> set (cfg_Chains raw)"
  shows "\<exists>c'. (name, Some c') \<in> set (cfg_Chains cfg) \<and> cc_HealthCheck c' = cc_HealthCheck c \<and>
    cc_CircuitBreaker c' = cc_CircuitBreaker c \<and> cc_Endpoints c' = cc_Endpoints c"
  using assms
  by (intro exI [of _ "with_pool_defaults c"])
    (force simp: Load_def chain_defaults_eq Let_def with_pool_defaults_def
      split: if_splits)

text \<open>
  A chain key without a value makes \<open>Load\<close> panic, at start-up and at every reload.
\<close>

lemma Load_nil_chain_panics:
  assumes "readFile path = Inr data" and "unmarshal data = Inr raw"
    and "(name, None) \<in> set (cfg_Chains raw)"
  shows "Load readFile unmarshal path = Panic ''nil pointer dereference''"
  using assms by (auto simp: Load_def chain_defaults_eq Let_def)

end
