(* ===== verification/Float64.thy ===== *)
theory Float64
  imports Prelude "HOL-Library.Log_Nat"
begin

text \<open>
  Go's \<open>float64\<close> as far as the rate limiters use it: a value is a rational number and every
  operation rounds the exact result to 53 significant bits, ties to even. The exponent is
  unbounded: the limiters add, multiply and divide whole numbers of nanoseconds, requests
  and tokens, whose results are far from the ends of the range. The one division that can be
  by zero is treated where it occurs. \<open>float_rounding\<close> collects what the limiters' lemmas
  use of rounding.
\<close>

type_synonym float64 = rat

section \<open>Rounding\<close>

text \<open>To the nearest integer, ties to even.\<close>

definition rnd_int :: "rat \<Rightarrow> int" where
  "rnd_int x =
     (let f = \<lfloor>x\<rfloor>; d = x - of_int f
      in if d < 1 / 2 then f else if 1 / 2 < d then f + 1 else if even f then f else f + 1)"

text \<open>The exponent of a positive number.\<close>

definition ilog2 :: "rat \<Rightarrow> int" where
  "ilog2 x =
     (let (p, q) = quotient_of x; e = bitlen p - bitlen q
      in if 2 powi e \<le> x then e else e - 1)"

definition rnd_pos :: "rat \<Rightarrow> float64" where
  "rnd_pos x = (let k = ilog2 x - 52 in of_int (rnd_int (x / 2 powi k)) * 2 powi k)"

definition rnd64 :: "rat \<Rightarrow> float64" where
  "rnd64 x = (if x = 0 then 0 else if x < 0 then - rnd_pos (- x) else rnd_pos x)"

definition float64_of_int :: "int \<Rightarrow> float64" where
  "float64_of_int n = rnd64 (of_int n)"

definition fadd :: "float64 \<Rightarrow> float64 \<Rightarrow> float64" where
  "fadd x y = rnd64 (x + y)"

definition fsub :: "float64 \<Rightarrow> float64 \<Rightarrow> float64" where
  "fsub x y = rnd64 (x - y)"

definition fmul :: "float64 \<Rightarrow> float64 \<Rightarrow> float64" where
  "fmul x y = rnd64 (x * y)"

definition fdiv :: "float64 \<Rightarrow> float64 \<Rightarrow> float64" where
  "fdiv x y = rnd64 (x / y)"

text \<open>\<open>Duration.Seconds\<close>: whole seconds and the remaining nanoseconds are converted apart.\<close>

definition Seconds :: "duration \<Rightarrow> float64" where
  "Seconds d =
     fadd (float64_of_int (go_quot d 1000000000))
       (fdiv (float64_of_int (go_rem d 1000000000)) 1000000000)"

section \<open>Rounding to an integer\<close>

lemma rnd_int_bounds: "\<lfloor>x\<rfloor> \<le> rnd_int x" "rnd_int x \<le> \<lfloor>x\<rfloor> + 1"
  by (simp_all add: rnd_int_def Let_def)

lemma rnd_int_of_int [simp]: "rnd_int (of_int n) = n"
  by (simp add: rnd_int_def)

lemma rnd_int_error: "\<bar>of_int (rnd_int x) - x\<bar> \<le> 1 / 2"
proof -
  have "of_int \<lfloor>x\<rfloor> \<le> x" "x < of_int \<lfloor>x\<rfloor> + 1" by linarith+
  then show ?thesis by (auto simp: rnd_int_def Let_def abs_le_iff)
qed

lemma rnd_int_mono:
  assumes "x \<le> y"
  shows "rnd_int x \<le> rnd_int y"
proof (cases "\<lfloor>x\<rfloor> = \<lfloor>y\<rfloor>")
  case True
  with assms show ?thesis by (auto simp: rnd_int_def Let_def)
next
  case False
  with assms have "\<lfloor>x\<rfloor> + 1 \<le> \<lfloor>y\<rfloor>" using floor_mono [of x y] by linarith
  then show ?thesis using rnd_int_bounds(2) [of x] rnd_int_bounds(1) [of y] by linarith
qed

section \<open>The exponent\<close>

lemma powi_split: "(2::rat) powi (a + b) = 2 powi a * 2 powi b"
  by (simp add: power_int_add)

lemma powi_pos [simp]: "0 < (2::rat) powi a"
  by (simp add: zero_less_power_int)

lemma powi_mono: "a \<le> b \<Longrightarrow> (2::rat) powi a \<le> 2 powi b"
  by (rule power_int_increasing) simp_all

lemma bitlen_powi:
  assumes "0 < p"
  shows "(2::rat) powi (bitlen p - 1) \<le> of_int p" and "of_int p < (2::rat) powi (bitlen p)"
proof -
  have b: "0 < bitlen p" using assms bitlen_eq_zero_iff [of p] bitlen_nonneg [of p] by linarith
  note bounds = bitlen_bounds [OF assms]
  have "(of_int (2 ^ nat (bitlen p - 1)) :: rat) \<le> of_int p"
    using bounds by (simp only: of_int_le_iff)
  then show "(2::rat) powi (bitlen p - 1) \<le> of_int p" using b by (simp add: power_int_def)
  have "(of_int p :: rat) < of_int (2 ^ nat (bitlen p))"
    using bounds by (simp only: of_int_less_iff)
  then show "of_int p < (2::rat) powi (bitlen p)" using b by (simp add: power_int_def)
qed

lemma ilog2_bounds:
  assumes "0 < x"
  shows "2 powi ilog2 x \<le> x" and "x < 2 powi (ilog2 x + 1)"
proof -
  obtain p q where pq: "quotient_of x = (p, q)" by fastforce
  have q: "0 < q" using quotient_of_denom_pos [OF pq] .
  have x: "x = of_int p / of_int q" using quotient_of_div [OF pq] .
  have p: "0 < p" using assms q unfolding x by (simp add: zero_less_divide_iff)
  let ?e = "bitlen p - bitlen q"
  note bp = bitlen_powi [OF p] and bq = bitlen_powi [OF q]
  have "(2::rat) powi (?e - 1) * of_int q \<le> 2 powi (?e - 1) * 2 powi bitlen q"
    using bq by (intro mult_left_mono) simp_all
  also have "\<dots> = 2 powi (bitlen p - 1)" by (simp flip: powi_split)
  also have "\<dots> \<le> of_int p" by (rule bp)
  finally have lo: "2 powi (?e - 1) \<le> x" using q by (simp add: x le_divide_eq)
  have "of_int p < (2::rat) powi bitlen p" by (rule bp)
  also have "\<dots> = 2 powi (?e + 1) * 2 powi (bitlen q - 1)" by (simp flip: powi_split)
  also have "\<dots> \<le> 2 powi (?e + 1) * of_int q" using bq by (intro mult_left_mono) simp_all
  finally have hi: "x < 2 powi (?e + 1)" using q by (simp add: x divide_less_eq)
  show "2 powi ilog2 x \<le> x" and "x < 2 powi (ilog2 x + 1)"
    using lo hi by (auto simp: ilog2_def pq Let_def)
qed

lemma ilog2_mono:
  assumes "0 < x" and "x \<le> y"
  shows "ilog2 x \<le> ilog2 y"
proof (rule ccontr)
  assume "\<not> ilog2 x \<le> ilog2 y"
  then have "(2::rat) powi (ilog2 y + 1) \<le> 2 powi ilog2 x" by (intro powi_mono) simp
  with ilog2_bounds [of x] ilog2_bounds [of y] assms show False by linarith
qed

section \<open>Rounding to a float\<close>

lemma powi_shift:
  "(2::rat) powi e = 2 ^ 52 * 2 powi (e - 52)"
  "(2::rat) powi (e + 1) = 2 ^ 53 * 2 powi (e - 52)"
proof -
  have "(2::rat) powi (int n + b) = 2 ^ n * 2 powi b" for n b
    by (simp add: powi_split)
  from this [of 52 "e - 52"] this [of 53 "e - 52"]
  show "(2::rat) powi e = 2 ^ 52 * 2 powi (e - 52)"
    and "(2::rat) powi (e + 1) = 2 ^ 53 * 2 powi (e - 52)"
    by (simp_all add: add.commute)
qed

lemma scaled_bounds:
  assumes "0 < x"
  shows "2 ^ 52 \<le> x / 2 powi (ilog2 x - 52)" and "x / 2 powi (ilog2 x - 52) < 2 ^ 53"
  using ilog2_bounds [OF assms] powi_shift [of "ilog2 x"]
  by (simp_all add: le_divide_eq divide_less_eq)

lemma rnd_pos_bounds:
  assumes "0 < x"
  shows "2 powi ilog2 x \<le> rnd_pos x" and "rnd_pos x \<le> 2 powi (ilog2 x + 1)"
proof -
  let ?k = "ilog2 x - 52" and ?m = "x / 2 powi (ilog2 x - 52)"
  note b = scaled_bounds [OF assms]
  have "rnd_int (of_int (2 ^ 52)) \<le> rnd_int ?m" using b by (intro rnd_int_mono) simp
  then have "(of_int (2 ^ 52) :: rat) \<le> of_int (rnd_int ?m)"
    by (simp only: rnd_int_of_int of_int_le_iff)
  then have lo: "(2::rat) ^ 52 \<le> of_int (rnd_int ?m)" by simp
  have "rnd_int ?m \<le> rnd_int (of_int (2 ^ 53))" using b by (intro rnd_int_mono) simp
  then have "(of_int (rnd_int ?m) :: rat) \<le> of_int (2 ^ 53)"
    by (simp only: rnd_int_of_int of_int_le_iff)
  then have hi: "of_int (rnd_int ?m) \<le> (2::rat) ^ 53" by simp
  show "2 powi ilog2 x \<le> rnd_pos x"
    using mult_right_mono [OF lo, of "2 powi ?k"] by (simp add: rnd_pos_def Let_def powi_shift(1) [of "ilog2 x"])
  show "rnd_pos x \<le> 2 powi (ilog2 x + 1)"
    using mult_right_mono [OF hi, of "2 powi ?k"] by (simp add: rnd_pos_def Let_def powi_shift(2) [of "ilog2 x"])
qed

lemma rnd_pos_mono:
  assumes "0 < x" and "x \<le> y"
  shows "rnd_pos x \<le> rnd_pos y"
proof (cases "ilog2 x = ilog2 y")
  case True
  have "rnd_int (x / 2 powi (ilog2 y - 52)) \<le> rnd_int (y / 2 powi (ilog2 y - 52))"
    using assms(2) by (intro rnd_int_mono divide_right_mono) simp_all
  then show ?thesis
    unfolding rnd_pos_def Let_def True by (intro mult_right_mono) simp_all
next
  case False
  with ilog2_mono [OF assms] have "(2::rat) powi (ilog2 x + 1) \<le> 2 powi ilog2 y"
    by (intro powi_mono) simp
  with rnd_pos_bounds(2) [OF assms(1)] rnd_pos_bounds(1) [of y] assms show ?thesis by linarith
qed

lemma rnd_pos_pos: "0 < x \<Longrightarrow> 0 < rnd_pos x"
  using rnd_pos_bounds(1) [of x] powi_pos [of "ilog2 x"] by linarith

lemma rnd_pos_error:
  assumes "0 < x"
  shows "\<bar>rnd_pos x - x\<bar> \<le> x / 2 ^ 53"
proof -
  let ?k = "ilog2 x - 52"
  have "rnd_pos x - x = (of_int (rnd_int (x / 2 powi ?k)) - x / 2 powi ?k) * 2 powi ?k"
    by (simp add: rnd_pos_def Let_def left_diff_distrib)
  then have "\<bar>rnd_pos x - x\<bar> = \<bar>of_int (rnd_int (x / 2 powi ?k)) - x / 2 powi ?k\<bar> * 2 powi ?k"
    by (simp add: abs_mult)
  also have "\<dots> \<le> 1 / 2 * 2 powi ?k"
    by (intro mult_right_mono rnd_int_error) simp
  also have "\<dots> = 2 powi ilog2 x / 2 ^ 53"
    by (simp add: powi_shift(1) [of "ilog2 x"])
  also have "\<dots> \<le> x / 2 ^ 53"
    using ilog2_bounds(1) [OF assms] by (intro divide_right_mono) simp_all
  finally show ?thesis .
qed

lemma rnd_pos_int:
  assumes "0 < n" and "n \<le> 2 ^ 53"
  shows "rnd_pos (of_int n) = of_int n"
proof -
  let ?x = "of_int n :: rat"
  have x: "0 < ?x" using assms by simp
  show ?thesis
  proof (cases "n = 2 ^ 53")
    case False
    with assms have "?x < of_int (2 ^ 53)" by (simp only: of_int_less_iff)
    then have "ilog2 ?x \<le> 52"
      using ilog2_bounds(1) [OF x] powi_mono [of 53 "ilog2 ?x"]
      by (cases "53 \<le> ilog2 ?x") (simp_all add: power_int_def [of 2 53])
    then have "?x / 2 powi (ilog2 ?x - 52) = of_int (n * 2 ^ nat (52 - ilog2 ?x))"
      by (simp add: power_int_def divide_simps)
    then show ?thesis
      by (simp only: rnd_pos_def Let_def rnd_int_of_int) (simp add: power_int_def divide_simps)
  next
    case True
    have "2 powi ilog2 ?x \<le> ?x" "?x < 2 powi (ilog2 ?x + 1)" using ilog2_bounds [OF x] by simp_all
    moreover have "?x = 2 powi 53" using True by (simp add: power_int_def)
    ultimately have "ilog2 ?x = 53"
      using powi_mono [of "ilog2 ?x + 1" 53] powi_mono [of 54 "ilog2 ?x"]
      by (cases "ilog2 ?x" "53::int" rule: linorder_cases)
        (auto simp: power_int_def [of 2 54] power_int_def [of 2 53])
    then show ?thesis
      using True rnd_int_of_int [of "2 ^ 52"] by (simp add: rnd_pos_def Let_def power_int_def)
  qed
qed

section \<open>What the limiters use\<close>

locale float_rounding =
  fixes rnd :: "rat \<Rightarrow> rat"
  assumes rnd_mono: "x \<le> y \<Longrightarrow> rnd x \<le> rnd y"
    and rnd_exact: "\<bar>n\<bar> \<le> 2 ^ 53 \<Longrightarrow> rnd (of_int n) = of_int n"
    and rnd_error: "0 \<le> x \<Longrightarrow> \<bar>rnd x - x\<bar> \<le> x / 2 ^ 53"
begin

lemma rnd_ge: "of_int n \<le> x \<Longrightarrow> \<bar>n\<bar> \<le> 2 ^ 53 \<Longrightarrow> of_int n \<le> rnd x"
  using rnd_mono [of "of_int n" x] by (simp add: rnd_exact)

lemma rnd_le: "x \<le> of_int n \<Longrightarrow> \<bar>n\<bar> \<le> 2 ^ 53 \<Longrightarrow> rnd x \<le> of_int n"
  using rnd_mono [of x "of_int n"] by (simp add: rnd_exact)

lemma rnd_nonneg [simp]: "0 \<le> x \<Longrightarrow> 0 \<le> rnd x"
  using rnd_ge [of 0 x] by simp

lemma rnd_above: "0 \<le> x \<Longrightarrow> rnd x \<le> x + x / 2 ^ 53"
  using abs_le_D1 [OF rnd_error [of x]] by linarith

lemma rnd_upper: "0 \<le> x \<Longrightarrow> rnd x \<le> x * (1 + 1 / 2 ^ 53)"
  using rnd_above [of x] by (simp only: distrib_left mult_1_right times_divide_eq_right)

lemma rnd_capped:
  assumes "0 \<le> x" and "0 \<le> b"
  shows "min (rnd x) b \<le> x + b / 2 ^ 53"
proof (cases "x \<le> b")
  case True
  have "rnd x \<le> x + x / 2 ^ 53" by (rule rnd_above [OF assms(1)])
  also have "x / 2 ^ 53 \<le> b / 2 ^ 53" using True by (intro divide_right_mono) simp_all
  finally show ?thesis by simp
next
  case False
  moreover have "0 \<le> b / 2 ^ 53" using assms(2) by simp
  ultimately show ?thesis by linarith
qed

end

lemma rnd64_mono: "x \<le> y \<Longrightarrow> rnd64 x \<le> rnd64 y"
  using rnd_pos_mono [of x y] rnd_pos_mono [of "- y" "- x"] rnd_pos_pos [of y] rnd_pos_pos [of "- x"]
  by (auto simp: rnd64_def)

interpretation f64: float_rounding rnd64
proof unfold_locales
  fix x y :: rat and n :: int
  show "x \<le> y \<Longrightarrow> rnd64 x \<le> rnd64 y" by (rule rnd64_mono)
  show "rnd64 (of_int n) = of_int n" if "\<bar>n\<bar> \<le> 2 ^ 53"
    using that rnd_pos_int [of n] rnd_pos_int [of "- n"] by (auto simp: rnd64_def)
  show "\<bar>rnd64 x - x\<bar> \<le> x / 2 ^ 53" if "0 \<le> x"
    using that rnd_pos_error [of x] by (simp add: rnd64_def)
qed

lemma float64_of_int_id [simp]: "\<bar>n\<bar> \<le> 2 ^ 53 \<Longrightarrow> float64_of_int n = of_int n"
  by (simp add: float64_of_int_def f64.rnd_exact)

lemma Seconds_split:
  assumes "0 \<le> d"
  shows "Seconds d = fadd (float64_of_int (d div 1000000000))
    (fdiv (of_int (d mod 1000000000)) 1000000000)"
proof -
  have "d mod 1000000000 < 1000000000" "0 \<le> d mod 1000000000" by simp_all
  then have "\<bar>d mod 1000000000\<bar> \<le> 9007199254740992" by linarith
  then show ?thesis by (simp add: Seconds_def go_quot_nonneg go_rem_nonneg assms)
qed

lemma Seconds_nonneg [simp]: "0 \<le> d \<Longrightarrow> 0 \<le> Seconds d"
  by (simp add: Seconds_split fadd_def fdiv_def float64_of_int_def pos_imp_zdiv_nonneg_iff)

text \<open>Whole seconds are never lost.\<close>

lemma Seconds_ge:
  assumes "s * 1000000000 \<le> d" and "0 \<le> s" and "s \<le> 2 ^ 53"
  shows "of_int s \<le> Seconds d"
proof -
  have "0 \<le> s * 1000000000" using assms(2) by simp
  with assms(1) have d: "0 \<le> d" by linarith
  have "s = s * 1000000000 div 1000000000" by simp
  also have "\<dots> \<le> d div 1000000000" using assms(1) by (rule zdiv_mono1) simp
  finally have "s \<le> d div 1000000000" .
  then have "of_int s \<le> float64_of_int (d div 1000000000)"
    unfolding float64_of_int_def using assms by (intro f64.rnd_ge) simp_all
  moreover have "0 \<le> fdiv (of_int (d mod 1000000000)) 1000000000" by (simp add: fdiv_def)
  ultimately show ?thesis
    unfolding Seconds_split [OF d] fadd_def using assms by (intro f64.rnd_ge) simp_all
qed

text \<open>At most three roundings up.\<close>

lemma Seconds_upper:
  assumes "0 \<le> d"
  shows "Seconds d \<le> of_int d / 1000000000 * (1 + 1 / 2 ^ 53) * (1 + 1 / 2 ^ 53)"
proof -
  let ?u = "1 + 1 / 2 ^ 53 :: rat" and ?q = "of_int (d div 1000000000) :: rat"
    and ?r = "of_int (d mod 1000000000) / 1000000000 :: rat"
  have q: "0 \<le> ?q" and r: "0 \<le> ?r" using assms by (simp_all add: pos_imp_zdiv_nonneg_iff)
  have "of_int d = (of_int (d div 1000000000 * 1000000000 + d mod 1000000000) :: rat)"
    by (simp only: div_mult_mod_eq)
  also have "\<dots> = ?q * 1000000000 + of_int (d mod 1000000000)"
    by (simp only: of_int_add of_int_mult of_int_numeral)
  finally have d: "of_int d / 1000000000 = ?q + ?r"
    by (simp only: add_divide_distrib)
  have "rnd64 ?q + rnd64 ?r \<le> ?q * ?u + ?r * ?u" using q r by (intro add_mono f64.rnd_upper)
  also have "\<dots> = (?q + ?r) * ?u" by (rule distrib_right [symmetric])
  finally have s: "rnd64 ?q + rnd64 ?r \<le> (?q + ?r) * ?u" .
  have "Seconds d = rnd64 (rnd64 ?q + rnd64 ?r)"
    by (simp only: Seconds_split [OF assms] fadd_def fdiv_def float64_of_int_def)
  also have "\<dots> \<le> (rnd64 ?q + rnd64 ?r) * ?u" using q r by (intro f64.rnd_upper) simp
  also have "\<dots> \<le> (?q + ?r) * ?u * ?u" using s by (intro mult_right_mono) simp_all
  finally show ?thesis by (simp only: d)
qed

end
