(* ===== verification/Endpoint.thy ===== *)
theory Endpoint
  imports CircuitBreaker Config Float64
begin

text \<open>
  \<open>internal/chain/endpoint.go\<close>. An endpoint's atomics and guarded fields are one record;
  \<open>Call\<close> (health checks) and \<open>Forward\<close> (client traffic) are state transformers. The remote
  server, the network and \<open>net/http\<close> are the environment: an \<open>http_result\<close> says how far one
  exchange got and how long \<open>client.Do\<close> took. JSON coding is a parameter of \<open>Call\<close>.
\<close>

section \<open>State\<close>

record 'tls http_client =
  cl_Timeout :: duration
  cl_MaxIdleConns :: int
  cl_MaxIdleConnsPerHost :: int
  cl_MaxConnsPerHost :: int
  cl_IdleConnTimeout :: duration
  cl_TLS :: "'tls option"

record 'tls Endpoint =
  URL :: string
  Weight :: int
  healthy :: bool
  blockHeight :: int
  latency :: int
  totalReqs :: int
  failedReqs :: int
  lastError :: "go_error option"
  lastChecked :: time
  ep_client :: "'tls http_client"
  circuitBreaker :: "CircuitBreaker option"

record 'tls EndpointOptions =
  eo_URL :: string
  eo_Weight :: int
  eo_Timeout :: duration
  eo_TLSConfig :: "'tls option"
  eo_PoolConfig :: HTTPPoolConfig

definition NewEndpointWithOptions :: "'tls EndpointOptions \<Rightarrow> 'tls Endpoint" where
  "NewEndpointWithOptions opts =
     \<lparr>URL = eo_URL opts, Weight = eo_Weight opts, healthy = True, blockHeight = 0,
      latency = 0, totalReqs = 0, failedReqs = 0, lastError = None, lastChecked = zero_time,
      ep_client =
        \<lparr>cl_Timeout = eo_Timeout opts,
         cl_MaxIdleConns = MaxIdleConns (eo_PoolConfig opts),
         cl_MaxIdleConnsPerHost = MaxIdleConnsPerHost (eo_PoolConfig opts),
         cl_MaxConnsPerHost = MaxConnsPerHost (eo_PoolConfig opts),
         cl_IdleConnTimeout = IdleConnTimeout (eo_PoolConfig opts),
         cl_TLS = eo_TLSConfig opts\<rparr>,
      circuitBreaker = None\<rparr>"

definition NewEndpoint :: "string \<Rightarrow> int \<Rightarrow> duration \<Rightarrow> 'tls Endpoint" where
  "NewEndpoint url weight timeout = NewEndpointWithOptions
     \<lparr>eo_URL = url, eo_Weight = weight, eo_Timeout = timeout, eo_TLSConfig = None,
      eo_PoolConfig = \<lparr>MaxIdleConns = 100, MaxIdleConnsPerHost = 100, MaxConnsPerHost = 0,
        IdleConnTimeout = 90 * second\<rparr>\<rparr>"

definition NewEndpointWithCircuitBreaker ::
  "string \<Rightarrow> int \<Rightarrow> duration \<Rightarrow> CircuitBreakerConfig \<Rightarrow> 'tls Endpoint" where
  "NewEndpointWithCircuitBreaker url weight timeout cbConfig =
     (NewEndpoint url weight timeout)\<lparr>circuitBreaker := Some (NewCircuitBreaker cbConfig)\<rparr>"

section \<open>Accessors\<close>

definition CircuitBreakerState :: "'tls Endpoint \<Rightarrow> time \<Rightarrow> string" where
  "CircuitBreakerState e now =
     (case circuitBreaker e of None \<Rightarrow> [] | Some cb \<Rightarrow> State_String (currentState cb now))"

definition ep_CircuitBreakerStats :: "'tls Endpoint \<Rightarrow> time \<Rightarrow> CircuitBreakerStats option" where
  "ep_CircuitBreakerStats e now = map_option (\<lambda>cb. cb_Stats cb now) (circuitBreaker e)"

definition IsHealthy :: "'tls Endpoint \<Rightarrow> bool" where
  "IsHealthy e = healthy e"

definition SetHealthy :: "bool \<Rightarrow> 'tls Endpoint \<Rightarrow> 'tls Endpoint" where
  "SetHealthy h e = e\<lparr>healthy := h\<rparr>"

definition SetBlockHeight :: "int \<Rightarrow> 'tls Endpoint \<Rightarrow> 'tls Endpoint" where
  "SetBlockHeight height e = e\<lparr>blockHeight := height\<rparr>"

record EndpointStats =
  es_URL :: string
  es_Healthy :: bool
  es_BlockHeight :: int
  es_LatencyMs :: float64
  es_TotalReqs :: int
  es_FailedReqs :: int
  es_LastError :: "go_error option"
  es_LastChecked :: time

definition Latency :: "'tls Endpoint \<Rightarrow> float64" where
  "Latency e = fdiv (float64_of_int (latency e)) 1000"

definition ep_Stats :: "'tls Endpoint \<Rightarrow> EndpointStats" where
  "ep_Stats e =
     \<lparr>es_URL = URL e, es_Healthy = healthy e, es_BlockHeight = blockHeight e,
      es_LatencyMs = fdiv (float64_of_int (latency e)) 1000, es_TotalReqs = totalReqs e,
      es_FailedReqs = failedReqs e, es_LastError = lastError e, es_LastChecked = lastChecked e\<rparr>"

section \<open>Exchanges with the backend\<close>

record RPCRequest =
  rq_JSONRPC :: string
  rq_Method :: string
  rq_Params :: "json list"
  rq_ID :: json

record RPCError =
  re_Code :: int
  re_Message :: string
  re_Data :: string

record RPCResponse =
  rs_JSONRPC :: string
  rs_Result :: bytes
  rs_Error :: "RPCError option"
  rs_ID :: json

text \<open>
  How one exchange ends: the request cannot be built; \<open>client.Do\<close> fails after some time;
  the headers arrive with a status but the body cannot be read; or a full response.
\<close>

datatype http_result =
    NewRequestFails go_error
  | DoFails go_error duration
  | BodyFails int go_error duration
  | Response int bytes duration

definition microseconds :: "duration \<Rightarrow> int" where
  "microseconds d = go_quot d 1000"

definition count_total :: "'tls Endpoint \<Rightarrow> 'tls Endpoint" where
  "count_total e = e\<lparr>totalReqs := wrap64 (totalReqs e + 1)\<rparr>"

definition count_failed :: "'tls Endpoint \<Rightarrow> 'tls Endpoint" where
  "count_failed e = e\<lparr>failedReqs := wrap64 (failedReqs e + 1)\<rparr>"

definition store_latency :: "duration \<Rightarrow> 'tls Endpoint \<Rightarrow> 'tls Endpoint" where
  "store_latency d e = e\<lparr>latency := microseconds d\<rparr>"

definition set_lastError :: "go_error \<Rightarrow> 'tls Endpoint \<Rightarrow> 'tls Endpoint" where
  "set_lastError err e = e\<lparr>lastError := Some err\<rparr>"

definition bad_status :: "int \<Rightarrow> go_error" where
  "bad_status code = ErrNew (''unexpected status code: '' @ itoa code)"

definition decode_response ::
  "(bytes \<Rightarrow> go_error + RPCResponse) \<Rightarrow> bytes \<Rightarrow> 'tls Endpoint \<Rightarrow>
     (go_error + RPCResponse) \<times> 'tls Endpoint" where
  "decode_response unmarshal body e =
     (case unmarshal body of
        Inl err \<Rightarrow> (Inl (ErrWrap ''failed to unmarshal response'' err), count_failed e)
      | Inr resp \<Rightarrow> (Inr resp, e))"

definition Call ::
  "(RPCRequest \<Rightarrow> go_error + bytes) \<Rightarrow> (bytes \<Rightarrow> go_error + RPCResponse) \<Rightarrow>
     'tls Endpoint \<Rightarrow> RPCRequest \<Rightarrow> (bytes \<Rightarrow> http_result) \<Rightarrow>
     (go_error + RPCResponse) \<times> 'tls Endpoint" where
  "Call marshal unmarshal e req http =
     (let e = count_total e
      in case marshal req of
           Inl err \<Rightarrow> (Inl (ErrWrap ''failed to marshal request'' err), count_failed e)
         | Inr body \<Rightarrow>
             (case http body of
                NewRequestFails err \<Rightarrow>
                  (Inl (ErrWrap ''failed to create request'' err), count_failed e)
              | DoFails err d \<Rightarrow>
                  (Inl (ErrWrap ''request failed'' err),
                   set_lastError err (count_failed (store_latency d e)))
              | BodyFails code err d \<Rightarrow>
                  (if code \<noteq> 200
                   then (Inl (bad_status code),
                         set_lastError (bad_status code) (count_failed (store_latency d e)))
                   else (Inl (ErrWrap ''failed to read response'' err),
                         count_failed (store_latency d e)))
              | Response code respBody d \<Rightarrow>
                  (if code \<noteq> 200
                   then (Inl (bad_status code),
                         set_lastError (bad_status code) (count_failed (store_latency d e)))
                   else decode_response unmarshal respBody (store_latency d e))))"

text \<open>
  The clock readings of one \<open>Forward\<close>: at admission, when its outcome is recorded, and
  the one of \<open>trip\<close>.
\<close>

record clock =
  t_allow :: time
  t_record :: time
  t_trip :: time

definition recordCircuitBreakerSuccess :: "clock \<Rightarrow> 'tls Endpoint \<Rightarrow> 'tls Endpoint" where
  "recordCircuitBreakerSuccess ck e =
     (case circuitBreaker e of
        None \<Rightarrow> e
      | Some cb \<Rightarrow> e\<lparr>circuitBreaker := Some (RecordSuccess cb (t_record ck))\<rparr>)"

definition recordCircuitBreakerFailure :: "clock \<Rightarrow> 'tls Endpoint \<Rightarrow> 'tls Endpoint" where
  "recordCircuitBreakerFailure ck e =
     (case circuitBreaker e of
        None \<Rightarrow> e
      | Some cb \<Rightarrow> e\<lparr>circuitBreaker := Some (RecordFailure cb (t_record ck) (t_trip ck))\<rparr>)"

text \<open>The part of \<open>Forward\<close> after admission.\<close>

definition forward_admitted ::
  "'tls Endpoint \<Rightarrow> clock \<Rightarrow> http_result \<Rightarrow> (go_error + bytes) \<times> 'tls Endpoint" where
  "forward_admitted e ck http =
     (let e = count_total e
      in case http of
           NewRequestFails err \<Rightarrow>
             (Inl (ErrWrap ''failed to create request'' err),
              recordCircuitBreakerFailure ck (count_failed e))
         | DoFails err d \<Rightarrow>
             (Inl (ErrWrap ''request failed'' err),
              recordCircuitBreakerFailure ck
                (set_lastError err (count_failed (store_latency d e))))
         | BodyFails code err d \<Rightarrow>
             (Inl (ErrWrap ''failed to read response'' err),
              recordCircuitBreakerFailure ck (count_failed (store_latency d e)))
         | Response code respBody d \<Rightarrow>
             (if code \<noteq> 200
              then (Inr respBody,
                    recordCircuitBreakerSuccess ck (count_failed (store_latency d e)))
              else (Inr respBody, recordCircuitBreakerSuccess ck (store_latency d e))))"

definition Forward ::
  "'tls Endpoint \<Rightarrow> bytes \<Rightarrow> clock \<Rightarrow> (bytes \<Rightarrow> http_result) \<Rightarrow>
     (go_error + bytes) \<times> 'tls Endpoint" where
  "Forward e body ck http =
     (case circuitBreaker e of
        None \<Rightarrow> forward_admitted e ck (http body)
      | Some cb \<Rightarrow>
          (let (ok, cb') = Allow cb (t_allow ck); e = e\<lparr>circuitBreaker := Some cb'\<rparr>
           in if ok then forward_admitted e ck (http body) else (Inl ErrCircuitOpen, e)))"

lemmas endpoint_defs [go_defs] =
  count_total_def count_failed_def store_latency_def set_lastError_def
  recordCircuitBreakerSuccess_def recordCircuitBreakerFailure_def SetHealthy_def
  SetBlockHeight_def IsHealthy_def decode_response_def

section \<open>Frame and accounting\<close>

text \<open>What neither exchange touches. In particular nothing ever writes \<open>lastChecked\<close>.\<close>

definition ep_fixed :: "'tls Endpoint \<Rightarrow> string \<times> int \<times> bool \<times> int \<times> time \<times> 'tls http_client" where
  "ep_fixed e = (URL e, Weight e, healthy e, blockHeight e, lastChecked e, ep_client e)"

lemma ep_fixed_updates [simp]:
  "ep_fixed (count_total e) = ep_fixed e" "ep_fixed (count_failed e) = ep_fixed e"
  "ep_fixed (store_latency d e) = ep_fixed e" "ep_fixed (set_lastError err e) = ep_fixed e"
  "ep_fixed (recordCircuitBreakerSuccess ck e) = ep_fixed e"
  "ep_fixed (recordCircuitBreakerFailure ck e) = ep_fixed e"
  "ep_fixed (e\<lparr>circuitBreaker := cb\<rparr>) = ep_fixed e"
  by (simp_all add: ep_fixed_def endpoint_defs split: option.split)

lemma counters_updates [simp]:
  "totalReqs (count_failed e) = totalReqs e" "totalReqs (store_latency d e) = totalReqs e"
  "totalReqs (set_lastError err e) = totalReqs e"
  "totalReqs (recordCircuitBreakerSuccess ck e) = totalReqs e"
  "totalReqs (recordCircuitBreakerFailure ck e) = totalReqs e"
  "failedReqs (count_total e) = failedReqs e" "failedReqs (store_latency d e) = failedReqs e"
  "failedReqs (set_lastError err e) = failedReqs e"
  "failedReqs (recordCircuitBreakerSuccess ck e) = failedReqs e"
  "failedReqs (recordCircuitBreakerFailure ck e) = failedReqs e"
  "totalReqs (count_total e) = wrap64 (totalReqs e + 1)"
  "failedReqs (count_failed e) = wrap64 (failedReqs e + 1)"
  by (simp_all add: endpoint_defs split: option.split)

lemma breaker_updates [simp]:
  "circuitBreaker (count_total e) = circuitBreaker e"
  "circuitBreaker (count_failed e) = circuitBreaker e"
  "circuitBreaker (store_latency d e) = circuitBreaker e"
  "circuitBreaker (set_lastError err e) = circuitBreaker e"
  by (simp_all add: endpoint_defs)

lemma Call_fixed: "ep_fixed (snd (Call marshal unmarshal e req http)) = ep_fixed e"
  by (simp add: Call_def Let_def decode_response_def split: sum.split http_result.split)

lemma forward_admitted_fixed: "ep_fixed (snd (forward_admitted e ck r)) = ep_fixed e"
  by (simp add: forward_admitted_def Let_def split: http_result.split)

lemma Forward_fixed: "ep_fixed (snd (Forward e body ck http)) = ep_fixed e"
  by (simp add: Forward_def Let_def forward_admitted_fixed split: option.split prod.split)

lemma Forward_frame [simp]:
  "Weight (snd (Forward e body ck http)) = Weight e"
  "healthy (snd (Forward e body ck http)) = healthy e"
  "blockHeight (snd (Forward e body ck http)) = blockHeight e"
  "URL (snd (Forward e body ck http)) = URL e"
  using Forward_fixed [of e body ck http] by (simp_all add: ep_fixed_def)

lemma Call_frame [simp]:
  "Weight (snd (Call marshal unmarshal e req http)) = Weight e"
  "healthy (snd (Call marshal unmarshal e req http)) = healthy e"
  "blockHeight (snd (Call marshal unmarshal e req http)) = blockHeight e"
  "URL (snd (Call marshal unmarshal e req http)) = URL e"
  using Call_fixed [of marshal unmarshal e req http] by (simp_all add: ep_fixed_def)

text \<open>An exchange fails in transport when no complete response comes back.\<close>

fun transport_error :: "http_result \<Rightarrow> go_error option" where
  "transport_error (NewRequestFails err) = Some (ErrWrap ''failed to create request'' err)"
| "transport_error (DoFails err d) = Some (ErrWrap ''request failed'' err)"
| "transport_error (BodyFails code err d) = Some (ErrWrap ''failed to read response'' err)"
| "transport_error (Response code body d) = None"

fun is_200 :: "http_result \<Rightarrow> bool" where
  "is_200 (Response code body d) = (code = 200)"
| "is_200 r = False"

definition admits :: "'tls Endpoint \<Rightarrow> clock \<Rightarrow> bool" where
  "admits e ck = (case circuitBreaker e of None \<Rightarrow> True | Some cb \<Rightarrow> fst (Allow cb (t_allow ck)))"

lemma Forward_denied: "\<not> admits e ck \<Longrightarrow> Forward e body ck http = (Inl ErrCircuitOpen, e)"
  by (cases "Allow (the (circuitBreaker e)) (t_allow ck)")
    (auto simp: admits_def Forward_def dest: Allow_deny split: option.splits)

lemma forward_admitted_counters:
  "totalReqs (snd (forward_admitted e ck r)) = wrap64 (totalReqs e + 1)"
  "failedReqs (snd (forward_admitted e ck r)) =
     (if is_200 r then failedReqs e else wrap64 (failedReqs e + 1))"
  by (cases r; simp add: forward_admitted_def Let_def)+

lemma Forward_counters:
  assumes "admits e ck"
  shows "totalReqs (snd (Forward e body ck http)) = wrap64 (totalReqs e + 1)"
    and "failedReqs (snd (Forward e body ck http)) =
      (if is_200 (http body) then failedReqs e else wrap64 (failedReqs e + 1))"
  using assms
  by (auto simp: Forward_def admits_def forward_admitted_counters Let_def
      split: option.splits prod.splits)

lemma Call_total: "totalReqs (snd (Call marshal unmarshal e req http)) = wrap64 (totalReqs e + 1)"
  by (simp add: Call_def Let_def decode_response_def split: sum.split http_result.split)

lemma Call_failed:
  "failedReqs (snd (Call marshal unmarshal e req http)) \<in> {failedReqs e, wrap64 (failedReqs e + 1)}"
  by (simp add: Call_def Let_def decode_response_def split: sum.split http_result.split)

lemma Call_breaker: "circuitBreaker (snd (Call marshal unmarshal e req http)) = circuitBreaker e"
  by (simp add: Call_def Let_def decode_response_def split: sum.split http_result.split)

lemma Forward_breaker:
  "circuitBreaker (snd (Forward e body ck http)) =
   map_option (guard_step Allow RecordSuccess RecordFailure (t_allow ck) (t_record ck) (t_trip ck)
     (transport_error (http body) \<noteq> None)) (circuitBreaker e)"
  by (cases "http body")
    (auto simp: Forward_def forward_admitted_def guard_step_def Let_def
      recordCircuitBreakerSuccess_def recordCircuitBreakerFailure_def
      split: option.split prod.split)

lemma Forward_result:
  "fst (Forward e body ck http) =
   (if \<not> admits e ck then Inl ErrCircuitOpen
    else case transport_error (http body) of
        Some err \<Rightarrow> Inl err
      | None \<Rightarrow> Inr (case http body of Response code b d \<Rightarrow> b | _ \<Rightarrow> []))"
  by (cases "http body")
    (auto simp: Forward_def forward_admitted_def admits_def Let_def split: option.split prod.split)

section \<open>Runs of exchanges\<close>

datatype exchange =
    ExCall RPCRequest "bytes \<Rightarrow> http_result"
  | ExForward bytes clock "bytes \<Rightarrow> http_result"

fun ep_exchange ::
  "(RPCRequest \<Rightarrow> go_error + bytes) \<Rightarrow> (bytes \<Rightarrow> go_error + RPCResponse) \<Rightarrow>
     exchange \<Rightarrow> 'tls Endpoint \<Rightarrow> 'tls Endpoint" where
  "ep_exchange marshal unmarshal (ExCall req http) e = snd (Call marshal unmarshal e req http)"
| "ep_exchange marshal unmarshal (ExForward body ck http) e = snd (Forward e body ck http)"

lemma ep_exchange_fixed: "ep_fixed (ep_exchange m u x e) = ep_fixed e"
  by (cases x) (simp_all add: Call_fixed Forward_fixed)

lemma ep_exchange_counters:
  assumes "0 \<le> failedReqs e" and "failedReqs e \<le> totalReqs e" and "totalReqs e < 2 ^ 63 - 1"
  shows "0 \<le> failedReqs (ep_exchange m u x e)"
    and "failedReqs (ep_exchange m u x e) \<le> totalReqs (ep_exchange m u x e)"
    and "totalReqs (ep_exchange m u x e) \<le> totalReqs e + 1"
proof -
  have inc: "wrap64 (totalReqs e + 1) = totalReqs e + 1"
      "wrap64 (failedReqs e + 1) = failedReqs e + 1"
    using assms by (simp_all add: wrap64_id int64_def)
  have *: "0 \<le> failedReqs (ep_exchange m u x e) \<and>
    failedReqs (ep_exchange m u x e) \<le> totalReqs (ep_exchange m u x e) \<and>
    totalReqs (ep_exchange m u x e) \<le> totalReqs e + 1"
  proof (cases x)
    case (ExCall req http)
    with Call_failed [of m u e req http] Call_total [of m u e req http] inc assms
    show ?thesis by auto
  next
    case (ExForward body ck http)
    with Forward_denied [of e ck body http] Forward_counters [of e ck body http] inc assms
    show ?thesis by (cases "admits e ck") auto
  qed
  then show "0 \<le> failedReqs (ep_exchange m u x e)"
    and "failedReqs (ep_exchange m u x e) \<le> totalReqs (ep_exchange m u x e)"
    and "totalReqs (ep_exchange m u x e) \<le> totalReqs e + 1" by simp_all
qed

lemma ep_run_counters:
  assumes "0 \<le> failedReqs e" and "failedReqs e \<le> totalReqs e"
    and "totalReqs e + int (length xs) < 2 ^ 63"
  shows "0 \<le> failedReqs (fold (ep_exchange m u) xs e) \<and>
    failedReqs (fold (ep_exchange m u) xs e) \<le> totalReqs (fold (ep_exchange m u) xs e) \<and>
    totalReqs (fold (ep_exchange m u) xs e) \<le> totalReqs e + int (length xs)"
  using assms
proof (induction xs arbitrary: e)
  case Nil
  then show ?case by simp
next
  case (Cons x xs)
  have "totalReqs e < 2 ^ 63 - 1" using Cons.prems by simp
  note one = ep_exchange_counters [OF Cons.prems(1,2) this, of m u x]
  with Cons.prems Cons.IH [OF one(1,2)] show ?case by fastforce
qed

lemma ep_run_fixed: "ep_fixed (fold (ep_exchange m u) xs e) = ep_fixed e"
  by (induction xs arbitrary: e) (simp_all add: ep_exchange_fixed)

text \<open>The breaker of an endpoint through a run is the breaker run by its protocol.\<close>

fun exchange_guard :: "exchange \<Rightarrow> (time \<times> time \<times> time \<times> bool) list" where
  "exchange_guard (ExCall req http) = []"
| "exchange_guard (ExForward body ck http) =
     [(t_allow ck, t_record ck, t_trip ck, transport_error (http body) \<noteq> None)]"

lemma ep_run_breaker:
  "circuitBreaker (fold (ep_exchange m u) xs e) =
   map_option (fold (\<lambda>(t1, t2, t3, fails).
       guard_step Allow RecordSuccess RecordFailure t1 t2 t3 fails)
     (concat (map exchange_guard xs))) (circuitBreaker e)"
proof (induction xs arbitrary: e)
  case Nil
  then show ?case by (simp add: option.map_ident)
next
  case (Cons x xs)
  then show ?case
    by (cases x) (simp_all add: Call_breaker Forward_breaker option.map_comp comp_def)
qed

section \<open>Properties\<close>

text \<open>
  C38. \<open>Forward\<close> fails only when the breaker denies the call, which then changes nothing,
  or when no complete response arrives. Otherwise it hands the body on unchanged,
  \<^emph>\<open>whatever the status code\<close>: a 429 or 503 answer counts in \<open>failedReqs\<close> but is returned as a
  success and recorded as one in the breaker.
\<close>

theorem Forward_outcome:
  "(\<not> admits e ck \<longrightarrow> Forward e body ck http = (Inl ErrCircuitOpen, e)) \<and>
   (admits e ck \<longrightarrow>
      (\<forall>code b d. http body = Response code b d \<longrightarrow>
         fst (Forward e body ck http) = Inr b \<and>
         circuitBreaker (snd (Forward e body ck http)) =
           map_option (\<lambda>cb. RecordSuccess (snd (Allow cb (t_allow ck))) (t_record ck))
             (circuitBreaker e)) \<and>
      ((\<exists>err. fst (Forward e body ck http) = Inl err) \<longleftrightarrow> transport_error (http body) \<noteq> None) \<and>
      totalReqs (snd (Forward e body ck http)) = wrap64 (totalReqs e + 1) \<and>
      failedReqs (snd (Forward e body ck http)) =
        (if is_200 (http body) then failedReqs e else wrap64 (failedReqs e + 1)))"
proof (cases "admits e ck")
  case False
  then show ?thesis by (simp add: Forward_denied)
next
  case True
  have breaker: "circuitBreaker (snd (Forward e body ck http)) =
      map_option (\<lambda>cb. RecordSuccess (snd (Allow cb (t_allow ck))) (t_record ck)) (circuitBreaker e)"
    if "http body = Response code b d" for code b d
    using True that
    by (cases "circuitBreaker e") (auto simp: Forward_breaker guard_step_def admits_def split_def)
  have "(\<exists>err. fst (Forward e body ck http) = Inl err) \<longleftrightarrow> transport_error (http body) \<noteq> None"
    using True by (auto simp: Forward_result split: option.split)
  with True breaker Forward_counters [OF True] show ?thesis
    by (auto simp: Forward_result)
qed

theorem Forward_outcome_witness:
  "fst (Forward (NewEndpoint ''http://a'' 1 0 :: unit Endpoint) ''{}''
     \<lparr>t_allow = 0, t_record = 0, t_trip = 0\<rparr> (\<lambda>_. Response 503 ''busy'' 10)) = Inr ''busy''"
  using Forward_outcome [of "NewEndpoint ''http://a'' 1 0 :: unit Endpoint"
      "\<lparr>t_allow = 0, t_record = 0, t_trip = 0\<rparr>" "''{}''" "\<lambda>_. Response 503 ''busy'' 10"]
  by (simp add: admits_def NewEndpoint_def NewEndpointWithOptions_def)

text \<open>
  Through any number of health checks and forwards (fewer than \<open>2^63\<close>) the failure
  counter stays between 0 and the request counter, which counts at most one per exchange;
  health flag, block height, weight and URL are untouched, and \<open>LastChecked\<close> keeps the
  zero time for ever.
\<close>

lemma endpoint_counters:
  assumes "int (length xs) < 2 ^ 63"
  shows "0 \<le> failedReqs (fold (ep_exchange m u) xs (NewEndpointWithOptions opts)) \<and>
    failedReqs (fold (ep_exchange m u) xs (NewEndpointWithOptions opts))
      \<le> totalReqs (fold (ep_exchange m u) xs (NewEndpointWithOptions opts)) \<and>
    totalReqs (fold (ep_exchange m u) xs (NewEndpointWithOptions opts)) \<le> int (length xs) \<and>
    ep_fixed (fold (ep_exchange m u) xs (NewEndpointWithOptions opts)) =
      ep_fixed (NewEndpointWithOptions opts) \<and>
    es_LastChecked (ep_Stats (fold (ep_exchange m u) xs (NewEndpointWithOptions opts))) = zero_time"
proof -
  let ?e = "fold (ep_exchange m u) xs (NewEndpointWithOptions opts)"
  have "ep_fixed ?e = ep_fixed (NewEndpointWithOptions opts)" by (rule ep_run_fixed)
  moreover from this have "lastChecked ?e = zero_time"
    by (simp add: ep_fixed_def NewEndpointWithOptions_def)
  ultimately show ?thesis
    using ep_run_counters [of "NewEndpointWithOptions opts" xs m u] assms
    by (simp add: ep_Stats_def) (simp add: NewEndpointWithOptions_def)
qed

lemma endpoint_counters_witness:
  "es_LastChecked (ep_Stats (fold (ep_exchange (\<lambda>_. Inr []) (\<lambda>_. Inl (ErrNew [])))
     [ExForward [] \<lparr>t_allow = 0, t_record = 0, t_trip = 0\<rparr> (\<lambda>_. Response 200 [] 5)]
     (NewEndpointWithOptions
        \<lparr>eo_URL = ''http://a'', eo_Weight = 1, eo_Timeout = 0, eo_TLSConfig = None :: unit option,
         eo_PoolConfig = \<lparr>MaxIdleConns = 0, MaxIdleConnsPerHost = 0, MaxConnsPerHost = 0,
           IdleConnTimeout = 0\<rparr>\<rparr>))) = zero_time"
  by (rule endpoint_counters [THEN conjunct2, THEN conjunct2, THEN conjunct2, THEN conjunct2]) simp

text \<open>
  An endpoint whose breaker asks for more successes than it lets probes through is
  lost after one trip: no sequence of health checks and forwards, even if every exchange
  with the backend succeeds, closes its breaker again.
\<close>

lemma starved_endpoint_lost:
  assumes "circuitBreaker e = Some (trip cb t0)"
    and "HalfOpenMaxRequests (cb_config cb) < SuccessThreshold (cb_config cb)"
    and "0 \<le> HalfOpenMaxRequests (cb_config cb)" and "int64 (HalfOpenMaxRequests (cb_config cb))"
  shows "\<exists>cb'. circuitBreaker (fold (ep_exchange m u) xs e) = Some cb' \<and> state cb' = StateOpen"
proof -
  have "starved (trip cb t0)" using assms by (simp add: starved_def trip_def)
  then have "starved (fold (\<lambda>(t1, t2, t3, fails).
      guard_step Allow RecordSuccess RecordFailure t1 t2 t3 fails)
      (concat (map exchange_guard xs)) (trip cb t0))" by (rule starved.guards_idle)
  then show ?thesis by (simp add: ep_run_breaker assms(1) starved_def)
qed

end
