(* ===== verification/LoadBalancer.thy ===== *)
theory LoadBalancer
  imports Prelude
begin

text \<open>
  \<open>internal/chain/loadbalancer.go\<close>. The slice of endpoint pointers is a list of indices
  into the chain's endpoints; each endpoint occurs once. The health flags are atomics that
  the health checker and other requests write at any time, so \<open>Next\<close>, which reads them in
  up to three passes, takes the flags seen by each pass (\<open>h1\<close>, \<open>h2\<close>, \<open>h3\<close>) as arguments.
\<close>

record LoadBalancer =
  lb_endpoints :: "nat list"
  weights :: "int list"
  current :: int

definition NewLoadBalancer :: "(nat \<Rightarrow> int) \<Rightarrow> nat list \<Rightarrow> LoadBalancer" where
  "NewLoadBalancer weight_of eps =
     \<lparr>lb_endpoints = eps, weights = map weight_of eps, current = 0\<rparr>"

abbreviation weighted :: "LoadBalancer \<Rightarrow> (nat \<times> int) list" where
  "weighted lb \<equiv> zip (lb_endpoints lb) (weights lb)"

section \<open>Operations\<close>

text \<open>The three loops of \<open>Next\<close>, over the endpoints with their weights.\<close>

fun total_loop :: "(nat \<Rightarrow> bool) \<Rightarrow> (nat \<times> int) list \<Rightarrow> int \<Rightarrow> int" where
  "total_loop h [] totalWeight = totalWeight"
| "total_loop h ((ep, w) # xs) totalWeight =
     total_loop h xs (if h ep then wrap64 (totalWeight + w) else totalWeight)"

fun pick_loop :: "(nat \<Rightarrow> bool) \<Rightarrow> int \<Rightarrow> (nat \<times> int) list \<Rightarrow> int \<Rightarrow> nat option" where
  "pick_loop h selected [] cumulative = None"
| "pick_loop h selected ((ep, w) # xs) cumulative =
     (if \<not> h ep then pick_loop h selected xs cumulative
      else
        let cumulative = wrap64 (cumulative + w)
        in if selected < cumulative then Some ep else pick_loop h selected xs cumulative)"

fun first_healthy :: "(nat \<Rightarrow> bool) \<Rightarrow> nat list \<Rightarrow> nat option" where
  "first_healthy h [] = None"
| "first_healthy h (ep # eps) = (if h ep then Some ep else first_healthy h eps)"

definition Next ::
  "(nat \<Rightarrow> bool) \<Rightarrow> (nat \<Rightarrow> bool) \<Rightarrow> (nat \<Rightarrow> bool) \<Rightarrow> LoadBalancer \<Rightarrow>
     (go_error + nat) \<times> LoadBalancer" where
  "Next h1 h2 h3 lb =
     (if lb_endpoints lb = [] then (Inl ErrNoHealthyEndpoints, lb)
      else
        let totalWeight = total_loop h1 (weighted lb) 0
        in if totalWeight = 0 then (Inl ErrNoHealthyEndpoints, lb)
           else
             let idx = wrap64 (current lb + 1);
                 lb' = lb\<lparr>current := idx\<rparr>;
                 selected = go_rem idx totalWeight
             in case pick_loop h2 selected (weighted lb) 0 of
                  Some ep \<Rightarrow> (Inr ep, lb')
                | None \<Rightarrow>
                    (case first_healthy h3 (lb_endpoints lb) of
                       Some ep \<Rightarrow> (Inr ep, lb')
                     | None \<Rightarrow> (Inl ErrNoHealthyEndpoints, lb')))"

text \<open>With flags that do not change during the call.\<close>

abbreviation Next_seq :: "(nat \<Rightarrow> bool) \<Rightarrow> LoadBalancer \<Rightarrow> (go_error + nat) \<times> LoadBalancer" where
  "Next_seq h \<equiv> Next h h h"

text \<open>A negative remainder indexes out of range.\<close>

definition NextWithFallback ::
  "(nat \<Rightarrow> bool) \<Rightarrow> (nat \<Rightarrow> bool) \<Rightarrow> (nat \<Rightarrow> bool) \<Rightarrow> LoadBalancer \<Rightarrow>
     (go_error + nat) outcome \<times> LoadBalancer" where
  "NextWithFallback h1 h2 h3 lb =
     (case Next h1 h2 h3 lb of
        (Inr ep, lb1) \<Rightarrow> (Return (Inr ep), lb1)
      | (Inl err, lb1) \<Rightarrow>
          (if 0 < length (lb_endpoints lb1) then
             let c = wrap64 (current lb1 + 1);
                 idx = go_rem c (int (length (lb_endpoints lb1)));
                 lb2 = lb1\<lparr>current := c\<rparr>
             in if idx < 0 then (Panic ''index out of range'', lb2)
                else (Return (Inr (lb_endpoints lb1 ! nat idx)), lb2)
           else (Return (Inl ErrNoHealthyEndpoints), lb1)))"

fun count_healthy :: "(nat \<Rightarrow> bool) \<Rightarrow> nat list \<Rightarrow> int \<Rightarrow> int" where
  "count_healthy h [] count = count"
| "count_healthy h (ep # eps) count = count_healthy h eps (if h ep then count + 1 else count)"

definition HealthyCount :: "(nat \<Rightarrow> bool) \<Rightarrow> LoadBalancer \<Rightarrow> int" where
  "HealthyCount h lb = count_healthy h (lb_endpoints lb) 0"

definition AllEndpoints :: "LoadBalancer \<Rightarrow> nat list" where
  "AllEndpoints lb = lb_endpoints lb"

section \<open>The schedule\<close>

text \<open>
  The order in which the healthy endpoints come up in one cycle: each as often in a row as
  its weight says.
\<close>

definition schedule :: "(nat \<Rightarrow> bool) \<Rightarrow> (nat \<times> int) list \<Rightarrow> nat list" where
  "schedule h xs = concat (map (\<lambda>(ep, w). if h ep then replicate (nat w) ep else []) xs)"

definition healthy_weight :: "(nat \<Rightarrow> bool) \<Rightarrow> (nat \<times> int) list \<Rightarrow> int" where
  "healthy_weight h xs = sum_list (map (\<lambda>(ep, w). if h ep then w else 0) xs)"

text \<open>What \<open>Load\<close>ed weights satisfy: one per endpoint, none negative, the sum in range.\<close>

definition lb_ok :: "LoadBalancer \<Rightarrow> bool" where
  "lb_ok lb \<longleftrightarrow>
     length (weights lb) = length (lb_endpoints lb) \<and> distinct (lb_endpoints lb) \<and>
     (\<forall>w\<in>set (weights lb). 0 \<le> w) \<and> sum_list (weights lb) < 2 ^ 63 \<and> int64 (current lb)"

lemma schedule_simps [simp]:
  "schedule h [] = []"
  "schedule h ((ep, w) # xs) = (if h ep then replicate (nat w) ep else []) @ schedule h xs"
  by (simp_all add: schedule_def)

lemma healthy_weight_simps [simp]:
  "healthy_weight h [] = 0"
  "healthy_weight h ((ep, w) # xs) = (if h ep then w else 0) + healthy_weight h xs"
  by (simp_all add: healthy_weight_def)

lemma healthy_weight_nonneg: "\<forall>(ep, w)\<in>set xs. 0 \<le> w \<Longrightarrow> 0 \<le> healthy_weight h xs"
  by (induction xs) auto

lemma healthy_weight_le_total:
  "\<forall>(ep, w)\<in>set xs. 0 \<le> w \<Longrightarrow> healthy_weight h xs \<le> healthy_weight (\<lambda>_. True) xs"
  by (induction xs) auto

lemma length_schedule:
  "\<forall>(ep, w)\<in>set xs. 0 \<le> w \<Longrightarrow> int (length (schedule h xs)) = healthy_weight h xs"
  by (induction xs) auto

lemma set_schedule: "set (schedule h xs) = {ep. \<exists>w. (ep, w) \<in> set xs \<and> h ep \<and> 0 < w}"
  by (force simp: schedule_def set_replicate_conv_if split: if_splits)

lemma total_loop_eq:
  assumes "\<forall>(ep, w)\<in>set xs. 0 \<le> w" and "0 \<le> t" and "t + healthy_weight h xs < 2 ^ 63"
  shows "total_loop h xs t = t + healthy_weight h xs"
  using assms
proof (induction xs arbitrary: t)
  case Nil
  then show ?case by simp
next
  case (Cons x xs)
  obtain ep w where x: "x = (ep, w)" by fastforce
  have nn: "0 \<le> healthy_weight h xs" using Cons.prems(1) by (intro healthy_weight_nonneg) auto
  have "wrap64 (t + w) = t + w" if "h ep"
    using that nn Cons.prems x by (intro wrap64_id) (simp add: int64_def)
  with x Cons.prems Cons.IH [of "t + w"] Cons.IH [of t] show ?case by auto
qed

lemma pick_loop_eq:
  assumes "\<forall>(ep, w)\<in>set xs. 0 \<le> w" and "0 \<le> c" and "c \<le> sel"
    and "c + healthy_weight h xs < 2 ^ 63"
  shows "pick_loop h sel xs c =
    (if sel < c + healthy_weight h xs then Some (schedule h xs ! nat (sel - c)) else None)"
  using assms
proof (induction xs arbitrary: c)
  case Nil
  then show ?case by simp
next
  case (Cons x xs)
  obtain ep w where x: "x = (ep, w)" by fastforce
  have nn: "0 \<le> healthy_weight h xs" using Cons.prems(1) by (intro healthy_weight_nonneg) auto
  show ?case
  proof (cases "h ep")
    case False
    with x Cons show ?thesis by simp
  next
    case True
    have w: "0 \<le> w" and wrap: "wrap64 (c + w) = c + w"
      using True nn Cons.prems x by (auto intro!: wrap64_id simp: int64_def)
    show ?thesis
    proof (cases "sel < c + w")
      case True
      with \<open>h ep\<close> w wrap nn x Cons.prems(3) show ?thesis by (simp add: nth_append)
    next
      case False
      then have i: "nat (sel - (c + w)) = nat (sel - c) - nat w" and "\<not> nat (sel - c) < nat w"
        using w by simp_all
      with False Cons.IH [of "c + w"] Cons.prems w True wrap x show ?thesis
        by (simp add: nth_append i add.assoc)
    qed
  qed
qed

lemma first_healthy_Some: "first_healthy h eps = Some ep \<Longrightarrow> ep \<in> set eps \<and> h ep"
  by (induction eps) (auto split: if_splits)

lemma pick_loop_Some: "pick_loop h sel xs c = Some ep \<Longrightarrow> ep \<in> fst ` set xs \<and> h ep"
  by (induction h sel xs c rule: pick_loop.induct) (auto simp: Let_def split: if_splits)

lemma count_healthy_eq: "count_healthy h eps n = n + int (length (filter h eps))"
  by (induction h eps n rule: count_healthy.induct) auto

section \<open>What \<open>Next\<close> computes\<close>

lemma lb_ok_weighted:
  assumes "lb_ok lb"
  shows "\<forall>(ep, w)\<in>set (weighted lb). 0 \<le> w"
    and "0 \<le> healthy_weight h (weighted lb)"
    and "healthy_weight h (weighted lb) < 2 ^ 63"
proof -
  show nn: "\<forall>(ep, w)\<in>set (weighted lb). 0 \<le> w"
    using assms by (auto simp: lb_ok_def dest: set_zip_rightD)
  show "0 \<le> healthy_weight h (weighted lb)"
    using nn by (rule healthy_weight_nonneg)
  have "map snd (weighted lb) = weights lb" using assms by (simp add: lb_ok_def)
  then have "healthy_weight (\<lambda>_. True) (weighted lb) = sum_list (weights lb)"
    by (simp add: healthy_weight_def split_def)
  then show "healthy_weight h (weighted lb) < 2 ^ 63"
    using healthy_weight_le_total [OF nn, of h] assms by (simp add: lb_ok_def)
qed

lemma Next_total:
  "lb_ok lb \<Longrightarrow> total_loop h (weighted lb) 0 = healthy_weight h (weighted lb)"
  using lb_ok_weighted by (simp add: total_loop_eq)

lemma lb_ok_current [simp]: "lb_ok lb \<Longrightarrow> lb_ok (lb\<lparr>current := wrap64 c\<rparr>)"
  by (simp add: lb_ok_def)

lemma Next_counts:
  assumes "lb_ok lb" and "0 \<le> current lb" and "current lb < 2 ^ 63 - 1"
  shows "Next_seq h lb =
    (if healthy_weight h (weighted lb) = 0 then (Inl ErrNoHealthyEndpoints, lb)
     else (Inr (schedule h (weighted lb) !
                nat ((current lb + 1) mod healthy_weight h (weighted lb))),
           lb\<lparr>current := current lb + 1\<rparr>))"
proof (cases "healthy_weight h (weighted lb) = 0")
  case True
  with Next_total [OF assms(1)] show ?thesis by (simp add: Next_def Let_def)
next
  case False
  then have ne: "lb_endpoints lb \<noteq> []" by auto
  let ?W = "healthy_weight h (weighted lb)"
  let ?i = "(current lb + 1) mod ?W"
  note W = lb_ok_weighted(1) [OF assms(1)] lb_ok_weighted(2,3) [OF assms(1), of h]
  from False W(2) have pos: "0 < ?W" by linarith
  have inc: "wrap64 (current lb + 1) = current lb + 1"
    using assms(2,3) by (simp add: wrap64_id int64_def)
  have rem: "go_rem (current lb + 1) ?W = ?i" and i: "0 \<le> ?i" "?i < ?W"
    using assms(2) pos by (simp_all add: go_rem_nonneg)
  have "pick_loop h ?i (weighted lb) 0 = Some (schedule h (weighted lb) ! nat ?i)"
    using pick_loop_eq [OF W(1), of 0 ?i h] W(3) i by simp
  with False ne inc rem Next_total [OF assms(1), of h] show ?thesis
    by (simp add: Next_def Let_def)
qed

lemma fst_zip_member: "ep \<in> fst ` set (zip xs ys) \<Longrightarrow> ep \<in> set xs"
  by (auto dest: set_zip_leftD)

lemma Next_member:
  assumes "Next h1 h2 h3 lb = (Inr ep, lb')"
  shows "ep \<in> set (lb_endpoints lb) \<and> (h2 ep \<or> h3 ep)"
  using assms
  by (auto simp: Next_def Let_def split: if_splits option.splits
      dest!: pick_loop_Some first_healthy_Some intro: fst_zip_member)

lemma Next_error: "fst (Next h1 h2 h3 lb) = Inl err \<Longrightarrow> err = ErrNoHealthyEndpoints"
  by (auto simp: Next_def Let_def split: if_splits option.splits)

lemma first_healthy_None: "first_healthy h eps = None \<Longrightarrow> ep \<in> set eps \<Longrightarrow> \<not> h ep"
  by (induction eps) (auto split: if_splits)

lemma healthy_weight_pos_healthy:
  "healthy_weight h xs \<noteq> 0 \<Longrightarrow> \<exists>(ep, w)\<in>set xs. h ep"
  by (induction xs) (auto split: if_splits)

lemma Next_seq_fails_iff:
  assumes "lb_ok lb"
  shows "(\<exists>err. fst (Next_seq h lb) = Inl err) = (healthy_weight h (weighted lb) = 0)"
proof (cases "healthy_weight h (weighted lb) = 0")
  case True
  with Next_total [OF assms] show ?thesis by (simp add: Next_def Let_def)
next
  case False
  then obtain ep where "ep \<in> set (lb_endpoints lb)" "h ep"
    using healthy_weight_pos_healthy [OF False] by (auto dest: set_zip_leftD)
  then have "first_healthy h (lb_endpoints lb) \<noteq> None"
    using first_healthy_None by metis
  then show ?thesis
    using False Next_total [OF assms, of h] by (auto simp: Next_def Let_def split: option.split)
qed

lemma Next_lb_ok:
  assumes "lb_ok lb" and "Next h1 h2 h3 lb = (r, lb')"
  shows "lb_ok lb' \<and> lb_endpoints lb' = lb_endpoints lb \<and> weights lb' = weights lb"
  using assms by (auto simp: Next_def Let_def split: if_splits option.splits)

section \<open>The contract of a selector\<close>

text \<open>
  What the retry loop of a chain needs of its load balancer: a selection is a member that
  is healthy, a failure means that no member can be selected and changes nothing, and the
  members stay. \<open>usable\<close> says which members can be selected when healthy.
\<close>

locale selector =
  fixes next_ep :: "(nat \<Rightarrow> bool) \<Rightarrow> 'l \<Rightarrow> (go_error + nat) \<times> 'l"
    and usable :: "'l \<Rightarrow> nat \<Rightarrow> bool"
    and members :: "'l \<Rightarrow> nat set"
    and good :: "'l \<Rightarrow> bool"
  assumes good_next: "good l \<Longrightarrow> next_ep h l = (r, l') \<Longrightarrow>
      good l' \<and> usable l' = usable l \<and> members l' = members l"
    and next_Inr: "good l \<Longrightarrow> next_ep h l = (Inr ep, l') \<Longrightarrow> ep \<in> members l \<and> h ep"
    and next_Inl: "good l \<Longrightarrow> next_ep h l = (Inl err, l') \<Longrightarrow>
      err = ErrNoHealthyEndpoints \<and> l' = l \<and> (\<forall>ep\<in>members l. h ep \<longrightarrow> \<not> usable l ep)"
    and finite_members: "finite (members l)"

text \<open>Selections when every selected endpoint fails and is marked unhealthy.\<close>

definition mark_down :: "(nat \<Rightarrow> bool) \<Rightarrow> nat \<Rightarrow> nat \<Rightarrow> bool" where
  "mark_down h ep = (\<lambda>q. q \<noteq> ep \<and> h q)"

lemma mark_downD: "mark_down h ep q \<Longrightarrow> q \<noteq> ep \<and> h q"
  by (simp add: mark_down_def)

lemma mark_downI: "q \<noteq> ep \<Longrightarrow> h q \<Longrightarrow> mark_down h ep q"
  by (simp add: mark_down_def)

fun failover ::
  "((nat \<Rightarrow> bool) \<Rightarrow> 'l \<Rightarrow> (go_error + nat) \<times> 'l) \<Rightarrow> nat \<Rightarrow> (nat \<Rightarrow> bool) \<Rightarrow> 'l \<Rightarrow> nat list" where
  "failover next_ep 0 h l = []"
| "failover next_ep (Suc n) h l =
     (case next_ep h l of
        (Inl err, l') \<Rightarrow> []
      | (Inr ep, l') \<Rightarrow> ep # failover next_ep n (mark_down h ep) l')"

context selector
begin

lemma failover_members:
  "good l \<Longrightarrow> set (failover next_ep n h l) \<subseteq> {ep \<in> members l. h ep}"
proof (induction n arbitrary: h l)
  case (Suc n)
  show ?case
  proof (cases "next_ep h l")
    case (Pair r l')
    show ?thesis
    proof (cases r)
      case (Inr ep)
      with Pair Suc.prems good_next next_Inr have "good l'" "members l' = members l" "ep \<in> members l" "h ep"
        by blast+
      with Suc.IH [of l' "mark_down h ep"] Pair Inr show ?thesis by (auto dest: mark_downD)
    qed (use Pair in simp)
  qed
qed simp

lemma failover_distinct: "good l \<Longrightarrow> distinct (failover next_ep n h l)"
proof (induction n arbitrary: h l)
  case (Suc n)
  show ?case
  proof (cases "next_ep h l")
    case (Pair r l')
    show ?thesis
    proof (cases r)
      case (Inr ep)
      with Pair Suc.prems good_next have "good l'" by blast
      with failover_members [of l' n "mark_down h ep"] Suc.IH Pair Inr show ?thesis
        by (auto dest: mark_downD)
    qed (use Pair in simp)
  qed
qed simp

text \<open>It only stops early when every usable healthy member has been tried.\<close>

lemma failover_exhausts:
  assumes "good l" and "length (failover next_ep n h l) < n"
  shows "{ep \<in> members l. h ep \<and> usable l ep} \<subseteq> set (failover next_ep n h l)"
  using assms
proof (induction n arbitrary: h l)
  case (Suc n)
  show ?case
  proof (cases "next_ep h l")
    case (Pair r l')
    show ?thesis
    proof (cases r)
      case (Inl err)
      with Pair Suc.prems next_Inl [of l h err l'] show ?thesis by auto
    next
      case (Inr ep)
      with Pair Suc.prems good_next [of l h r l'] have "good l'" and
        same: "members l' = members l" "usable l' = usable l" by blast+
      with Suc.IH [of l' "mark_down h ep"] Suc.prems Pair Inr
      have "{x \<in> members l. mark_down h ep x \<and> usable l x} \<subseteq> set (failover next_ep n (mark_down h ep) l')"
        by simp
      with Pair Inr show ?thesis by (auto intro: mark_downI)
    qed
  qed
qed simp

end

lemma healthy_weight_zero_iff:
  "\<forall>(ep, w)\<in>set xs. 0 \<le> w \<Longrightarrow>
   (healthy_weight h xs = 0) = (\<forall>(ep, w)\<in>set xs. h ep \<longrightarrow> w = 0)"
proof (induction xs)
  case (Cons x xs)
  then show ?case
    using healthy_weight_nonneg [of xs h] by (cases x) auto
qed simp

interpretation lb: selector Next_seq "\<lambda>lb ep. \<exists>w. (ep, w) \<in> set (weighted lb) \<and> 0 < w"
  "\<lambda>lb. set (lb_endpoints lb)" lb_ok
proof
  fix h r ep err and l l' :: LoadBalancer
  show "lb_ok l' \<and> (\<lambda>ep. \<exists>w. (ep, w) \<in> set (weighted l') \<and> 0 < w) =
      (\<lambda>ep. \<exists>w. (ep, w) \<in> set (weighted l) \<and> 0 < w) \<and>
      set (lb_endpoints l') = set (lb_endpoints l)"
    if "lb_ok l" and "Next_seq h l = (r, l')"
    using Next_lb_ok [OF that] by simp
  show "ep \<in> set (lb_endpoints l) \<and> h ep" if "Next_seq h l = (Inr ep, l')"
    using Next_member [OF that] by simp
  show "finite (set (lb_endpoints l))" by simp
  assume ok: "lb_ok l" and "Next_seq h l = (Inl err, l')"
  moreover from this have z: "healthy_weight h (weighted l) = 0"
    using Next_seq_fails_iff [OF ok, of h] by auto
  ultimately have "err = ErrNoHealthyEndpoints" and "l' = l"
    using Next_total [OF ok, of h] by (auto simp: Next_def Let_def split: if_splits)
  with z lb_ok_weighted(1) [OF ok] show "err = ErrNoHealthyEndpoints \<and> l' = l \<and>
      (\<forall>ep\<in>set (lb_endpoints l). h ep \<longrightarrow> \<not> (\<exists>w. (ep, w) \<in> set (weighted l) \<and> 0 < w))"
    by (auto simp: healthy_weight_zero_iff)
qed

section \<open>Cycles\<close>

text \<open>The results of consecutive selections while the flags do not change.\<close>

fun picks :: "(nat \<Rightarrow> bool) \<Rightarrow> nat \<Rightarrow> LoadBalancer \<Rightarrow> (go_error + nat) list" where
  "picks h 0 lb = []"
| "picks h (Suc n) lb = (case Next_seq h lb of (r, lb') \<Rightarrow> r # picks h n lb')"

lemma length_picks [simp]: "length (picks h n lb) = n"
  by (induction n arbitrary: lb) (simp_all add: split_def)

lemma picks_nth:
  assumes "lb_ok lb" and "healthy_weight h (weighted lb) \<noteq> 0"
    and "0 \<le> current lb" and "current lb + int n < 2 ^ 63" and "i < n"
  shows "picks h n lb ! i = Inr (schedule h (weighted lb) !
    nat ((current lb + 1 + int i) mod healthy_weight h (weighted lb)))"
  using assms
proof (induction n arbitrary: lb i)
  case (Suc n)
  let ?lb = "lb\<lparr>current := current lb + 1\<rparr>"
  have "Next_seq h lb = (Inr (schedule h (weighted lb) !
      nat ((current lb + 1) mod healthy_weight h (weighted lb))), ?lb)"
    using Suc.prems Next_counts [of lb h] by simp
  moreover have "lb_ok ?lb"
    using Suc.prems by (simp add: lb_ok_def int64_def)
  ultimately show ?case
    using Suc.IH [of ?lb "i - 1"] Suc.prems by (cases i) (simp_all add: algebra_simps)
qed simp

lemma cycle_rotates:
  assumes "lb_ok lb" and "0 < healthy_weight h (weighted lb)" and "0 \<le> current lb"
    and "current lb + healthy_weight h (weighted lb) < 2 ^ 63"
  shows "picks h (nat (healthy_weight h (weighted lb))) lb =
    map Inr (rotate (nat (current lb + 1)) (schedule h (weighted lb)))"
proof (rule nth_equalityI)
  let ?W = "healthy_weight h (weighted lb)" and ?S = "schedule h (weighted lb)"
  have len: "length ?S = nat ?W"
    using length_schedule [OF lb_ok_weighted(1) [OF assms(1)], of h] assms(2) by linarith
  then show "length (picks h (nat ?W) lb) = length (map Inr (rotate (nat (current lb + 1)) ?S))"
    by simp
  fix i
  assume "i < length (picks h (nat ?W) lb)"
  then have i: "i < nat ?W" by simp
  have "int ((nat (current lb + 1) + i) mod nat ?W) = (current lb + 1 + int i) mod ?W"
    using assms(2,3) by (simp add: zmod_int)
  then have "(nat (current lb + 1) + i) mod nat ?W = nat ((current lb + 1 + int i) mod ?W)"
    by linarith
  with i len assms picks_nth [of lb h "nat ?W" i]
  show "picks h (nat ?W) lb ! i = map Inr (rotate (nat (current lb + 1)) ?S) ! i"
    by (simp add: nth_rotate)
qed

lemma count_schedule:
  assumes "distinct (map fst xs)" and "(ep, w) \<in> set xs"
  shows "count_list (schedule h xs) ep = (if h ep then nat w else 0)"
  using assms
proof (induction xs)
  case (Cons x xs)
  obtain e v where x: "x = (e, v)" by fastforce
  have rep: "count_list (replicate n a) b = (if a = b then n else 0)" for n and a b :: nat
    by (induction n) auto
  show ?case
  proof (cases "ep = e")
    case True
    then have "ep \<notin> set (schedule h xs)"
      using Cons.prems(1) x by (force simp: set_schedule)
    moreover have "w = v" using Cons.prems x True by force
    ultimately show ?thesis using x True by (simp add: rep)
  next
    case False
    with Cons x show ?thesis by (auto simp: rep)
  qed
qed simp

lemma count_list_rotate: "count_list (rotate n xs) x = count_list xs x"
proof (induction n)
  case (Suc n)
  then show ?case by (cases "rotate n xs") (auto simp: rotate1_def split: list.splits)
qed simp

lemma Next_seq_no_weight:
  assumes "lb_ok lb"
  shows "(fst (Next_seq h lb) = Inl ErrNoHealthyEndpoints) =
    (\<forall>(ep, w)\<in>set (weighted lb). h ep \<longrightarrow> w = 0)"
  using Next_seq_fails_iff [OF assms, of h] Next_error [of h h h lb]
    healthy_weight_zero_iff [OF lb_ok_weighted(1) [OF assms], of h]
  by metis

section \<open>Properties\<close>

text \<open>
  Whatever other goroutines do to the health flags during the call, an endpoint that
  \<open>Next\<close> returns is one of the balancer's and was healthy when it was last looked at; a
  failure is always \<open>ErrNoHealthyEndpoints\<close>.
\<close>

lemma Next_healthy_under_races:
  "(\<forall>ep. fst (Next h1 h2 h3 lb) = Inr ep \<longrightarrow> ep \<in> set (lb_endpoints lb) \<and> (h2 ep \<or> h3 ep)) \<and>
   (\<forall>err. fst (Next h1 h2 h3 lb) = Inl err \<longrightarrow> err = ErrNoHealthyEndpoints)"
  using Next_member [of h1 h2 h3 lb] Next_error [of h1 h2 h3 lb] by (metis prod.collapse)

lemma Next_healthy_under_races_witness:
  "fst (Next (\<lambda>_. True) (\<lambda>_. False) (\<lambda>ep. ep = 7)
     \<lparr>lb_endpoints = [4, 7], weights = [3, 2], current = 0\<rparr>) = Inr 7 \<and>
   (7::nat) \<in> set [4, 7]"
proof -
  let ?lb = "\<lparr>lb_endpoints = [4, 7], weights = [3, 2], current = 0\<rparr>"
  have "fst (Next (\<lambda>_. True) (\<lambda>_. False) (\<lambda>ep. ep = 7) ?lb) = Inr 7"
    by (simp add: Next_def wrap64_def Let_def)
  with Next_healthy_under_races [of "\<lambda>_. True" "\<lambda>_. False" "\<lambda>ep. ep = 7" ?lb]
  show ?thesis by auto
qed

text \<open>
  C2. Weighted round robin: while the flags stay, as many consecutive selections as the
  healthy weights add up to serve every healthy endpoint exactly as often as its weight
  and no other, in the order of the configured list starting at the counter. A new
  balancer starts one step into the cycle: its first endpoint gets one request less before
  the second is used, unlike the table in \<open>docs/ARCHITECTURE.md\<close>.
\<close>

theorem weighted_round_robin:
  assumes "lb_ok lb" and "0 < healthy_weight h (weighted lb)" and "0 \<le> current lb"
    and "current lb + healthy_weight h (weighted lb) < 2 ^ 63"
  shows "picks h (nat (healthy_weight h (weighted lb))) lb =
      map Inr (rotate (nat (current lb + 1)) (schedule h (weighted lb))) \<and>
    (\<forall>(ep, w)\<in>set (weighted lb).
       count_list (picks h (nat (healthy_weight h (weighted lb))) lb) (Inr ep) =
         (if h ep then nat w else 0))"
proof -
  have "distinct (map fst (weighted lb))"
    using assms(1) by (simp add: lb_ok_def)
  then have "count_list (rotate (nat (current lb + 1)) (schedule h (weighted lb))) ep =
      (if h ep then nat w else 0)" if "(ep, w) \<in> set (weighted lb)" for ep w
    using that by (simp add: count_list_rotate count_schedule)
  moreover have "count_list (map Inr xs :: (go_error + nat) list) (Inr ep) = count_list xs ep" for xs ep
    by (rule count_list_map_conv) simp
  ultimately show ?thesis
    using cycle_rotates [OF assms] by auto
qed

theorem weighted_round_robin_witness:
  "picks (\<lambda>_. True) 20 (NewLoadBalancer (\<lambda>ep. if ep = 0 then 10 else 5) [0, 1, 2]) =
     map Inr (replicate 9 0 @ replicate 5 1 @ replicate 5 2 @ [0])"
proof -
  let ?lb = "NewLoadBalancer (\<lambda>ep. if ep = 0 then 10 else 5) [0, 1, 2]"
  have w: "healthy_weight (\<lambda>_. True) (weighted ?lb) = 20"
    by (simp add: NewLoadBalancer_def)
  have "picks (\<lambda>_. True) (nat 20) ?lb =
      map Inr (rotate (nat (current ?lb + 1)) (schedule (\<lambda>_. True) (weighted ?lb)))"
    using weighted_round_robin [of ?lb "\<lambda>_. True"] w
    by (simp add: NewLoadBalancer_def lb_ok_def int64_def)
  then show ?thesis by (simp add: NewLoadBalancer_def numeral_eq_Suc)
qed

text \<open>
  With non-negative weights \<open>Next\<close> fails exactly when the healthy endpoints have no
  weight between them, wherever the counter stands, even after it has wrapped; in
  particular endpoints whose \<open>weight\<close> is missing in the file are never served.
\<close>

lemma Next_fails_iff_no_weight:
  assumes "lb_ok lb"
  shows "(fst (Next_seq h lb) = Inl ErrNoHealthyEndpoints) =
    (\<forall>(ep, w)\<in>set (weighted lb). h ep \<longrightarrow> w = 0)"
  using assms by (rule Next_seq_no_weight)

text \<open>
  \<open>NextWithFallback\<close> always returns one of the endpoints of a non-empty balancer until
  its counter wraps; from then on an unlucky remainder is negative and the index panics.
  (Nothing calls it: requests fail when no endpoint is healthy, although
  \<open>docs/ARCHITECTURE.md\<close> promises an automatic fallback.)
\<close>

lemma fallback_total_until_wrap:
  assumes "lb_ok lb" and "lb_endpoints lb \<noteq> []" and "0 \<le> current lb"
  shows "(current lb < 2 ^ 63 - 1 \<longrightarrow>
      (\<exists>ep\<in>set (lb_endpoints lb). fst (NextWithFallback h h h lb) = Return (Inr ep))) \<and>
    (current lb = 2 ^ 63 - 1 \<and> fst (Next_seq h lb) = Inl ErrNoHealthyEndpoints \<and>
     2 ^ 63 mod int (length (lb_endpoints lb)) \<noteq> 0 \<longrightarrow>
      fst (NextWithFallback h h h lb) = Panic ''index out of range'')"
proof (cases "Next_seq h lb")
  case (Pair r lb')
  have n: "0 < int (length (lb_endpoints lb))" using assms(2) by simp
  show ?thesis
  proof (cases r)
    case (Inr ep)
    with Pair Next_member [of h h h lb ep lb'] show ?thesis by (simp add: NextWithFallback_def)
  next
    case (Inl err)
    with Pair lb.next_Inl [OF assms(1), of h err lb'] have "lb' = lb" by simp
    moreover have "lb_endpoints lb ! nat ((current lb + 1) mod int (length (lb_endpoints lb)))
        \<in> set (lb_endpoints lb)"
      using n by (intro nth_mem) (simp add: nat_less_iff)
    moreover have "wrap64 (current lb + 1) = current lb + 1" if "current lb < 2 ^ 63 - 1"
      using that assms(3) by (simp add: wrap64_id int64_def)
    moreover have "wrap64 (2 ^ 63) = - (2 ^ 63)" by (simp add: wrap64_def)
    moreover have "(x mod int (length (lb_endpoints lb)) < 0) = False"
      and "(0 < x mod int (length (lb_endpoints lb))) = (x mod int (length (lb_endpoints lb)) \<noteq> 0)" for x
      using pos_mod_sign [OF n, of x] by auto
    ultimately show ?thesis
      using Pair Inl assms(3) n
      by (auto simp: NextWithFallback_def Let_def go_rem_nonneg go_rem_neg)
  qed
qed

end
