(* ===== verification/Chain.thy ===== *)
theory Chain
  imports Endpoint LoadBalancer
begin

text \<open>
  \<open>internal/chain/chain.go\<close>: a chain (its endpoints, load balancer, highest block), its
  request forwarding with retries, and the manager that holds the chains. Endpoint
  pointers are indices into the chain's endpoint list, so the balancer, the health checker
  and the retry loop share the endpoints' state.
\<close>

section \<open>State\<close>

text \<open>
  Of \<open>HealthChecker\<close> the fields that carry data; its context and wait group appear as the
  flag \<open>hk_running\<close> (started and not yet stopped).
\<close>

record HealthChecker =
  hk_cfg :: HealthCheckConfig
  maxBlockLag :: int
  hk_running :: bool

definition NewHealthChecker :: "HealthCheckConfig \<Rightarrow> HealthChecker" where
  "NewHealthChecker cfg = \<lparr>hk_cfg = cfg, maxBlockLag = hc_MaxBlockLag cfg, hk_running = False\<rparr>"

record 'tls Chain =
  ch_Name :: string
  ch_ChainID :: int
  endpoints :: "'tls Endpoint list"
  loadBalancer :: LoadBalancer
  healthChecker :: HealthChecker
  highestBlock :: int

record 'tls ChainOptions =
  co_Name :: string
  co_Config :: ChainConfig
  co_TLSConfig :: "'tls option"

definition breaker_of_config :: "CircuitBreakerSection \<Rightarrow> CircuitBreakerConfig" where
  "breaker_of_config s =
     \<lparr>FailureThreshold = or_default 5 (cbs_FailureThreshold s),
      SuccessThreshold = or_default 2 (cbs_SuccessThreshold s),
      Timeout = or_default (30 * second) (cbs_Timeout s),
      HalfOpenMaxRequests = or_default 3 (cbs_HalfOpenMaxRequests s)\<rparr>"

definition endpoint_of_config :: "'tls option \<Rightarrow> ChainConfig \<Rightarrow> EndpointConfig \<Rightarrow> 'tls Endpoint" where
  "endpoint_of_config tls cfg epCfg =
     (let ep = NewEndpointWithOptions
            \<lparr>eo_URL = epc_URL epCfg, eo_Weight = epc_Weight epCfg,
             eo_Timeout = hc_Timeout (cc_HealthCheck cfg), eo_TLSConfig = tls,
             eo_PoolConfig = cc_HTTPPool cfg\<rparr>
      in if cbs_Enabled (cc_CircuitBreaker cfg)
         then ep\<lparr>circuitBreaker := Some (NewCircuitBreaker (breaker_of_config (cc_CircuitBreaker cfg)))\<rparr>
         else ep)"

definition NewChainWithOptions :: "'tls ChainOptions \<Rightarrow> 'tls Chain" where
  "NewChainWithOptions opts =
     (let cfg = co_Config opts;
          eps = map (endpoint_of_config (co_TLSConfig opts) cfg) (cc_Endpoints cfg)
      in \<lparr>ch_Name = co_Name opts, ch_ChainID = cc_ChainID cfg, endpoints = eps,
          loadBalancer = NewLoadBalancer (\<lambda>i. Weight (eps ! i)) [0..<length eps],
          healthChecker = NewHealthChecker (cc_HealthCheck cfg), highestBlock = 0\<rparr>)"

definition NewChain :: "string \<Rightarrow> ChainConfig \<Rightarrow> 'tls Chain" where
  "NewChain name cfg = NewChainWithOptions \<lparr>co_Name = name, co_Config = cfg, co_TLSConfig = None\<rparr>"

section \<open>Operations of a chain\<close>

definition flags :: "'tls Chain \<Rightarrow> nat \<Rightarrow> bool" where
  "flags c i \<longleftrightarrow> i < length (endpoints c) \<and> IsHealthy (endpoints c ! i)"

definition update_endpoint :: "nat \<Rightarrow> ('tls Endpoint \<Rightarrow> 'tls Endpoint) \<Rightarrow> 'tls Chain \<Rightarrow> 'tls Chain" where
  "update_endpoint i f c = c\<lparr>endpoints := (endpoints c)[i := f (endpoints c ! i)]\<rparr>"

text \<open>\<open>c.loadBalancer.Next()\<close>, with the flags the endpoints have at that moment.\<close>

definition chain_next :: "'tls Chain \<Rightarrow> (go_error + nat) \<times> 'tls Chain" where
  "chain_next c =
     (let (r, lb) = Next_seq (flags c) (loadBalancer c) in (r, c\<lparr>loadBalancer := lb\<rparr>))"

definition no_endpoint :: "'tls Chain \<Rightarrow> go_error \<Rightarrow> go_error" where
  "no_endpoint c err = ErrWrap (''chain '' @ ch_Name c) err"

text \<open>\<open>ep.Forward\<close> on the endpoint with index \<open>i\<close>.\<close>

definition forward_on ::
  "nat \<Rightarrow> bytes \<Rightarrow> clock \<Rightarrow> (nat \<Rightarrow> bytes \<Rightarrow> http_result) \<Rightarrow> 'tls Chain \<Rightarrow>
     (go_error + bytes) \<times> 'tls Chain" where
  "forward_on i body ck http c =
     (let (r, e) = Forward (endpoints c ! i) body ck (http i)
      in (r, c\<lparr>endpoints := (endpoints c)[i := e]\<rparr>))"

definition Chain_Forward ::
  "'tls Chain \<Rightarrow> bytes \<Rightarrow> clock \<Rightarrow> (nat \<Rightarrow> bytes \<Rightarrow> http_result) \<Rightarrow>
     (go_error + bytes) \<times> 'tls Chain" where
  "Chain_Forward c body ck http =
     (case chain_next c of
        (Inl err, c1) \<Rightarrow> (Inl (no_endpoint c err), c1)
      | (Inr ep, c1) \<Rightarrow> forward_on ep body ck http c1)"

text \<open>
  The environment of one attempt: the clock, what each backend answers, whether the
  request's context ends during the pause after it, and what other goroutines do to the
  chain meanwhile.
\<close>

record 'tls attempt =
  at_clock :: clock
  at_http :: "nat \<Rightarrow> bytes \<Rightarrow> http_result"
  at_cancel :: "go_error option"
  at_world :: "'tls Chain \<Rightarrow> 'tls Chain"

definition retries_failed :: "go_error option \<Rightarrow> go_error" where
  "retries_failed lastErr =
     (case lastErr of
        None \<Rightarrow> ErrWrapNil ''all retries failed''
      | Some err \<Rightarrow> ErrWrap ''all retries failed'' err)"

text \<open>
  The loop of \<open>ForwardWithRetry\<close>; the first argument is the number of iterations left,
  \<open>maxRetries - i + 1\<close>, so the pause takes place when it is not the last one.
\<close>

fun retry_loop ::
  "nat \<Rightarrow> (nat \<Rightarrow> 'tls attempt) \<Rightarrow> nat \<Rightarrow> bytes \<Rightarrow> go_error option \<Rightarrow> 'tls Chain \<Rightarrow>
     (go_error + bytes) \<times> 'tls Chain" where
  "retry_loop 0 env i body lastErr c = (Inl (retries_failed lastErr), c)"
| "retry_loop (Suc left) env i body lastErr c =
     (case chain_next c of
        (Inl err, c1) \<Rightarrow> (Inl (no_endpoint c err), c1)
      | (Inr ep, c1) \<Rightarrow>
          (case forward_on ep body (at_clock (env i)) (at_http (env i)) c1 of
             (Inr resp, c2) \<Rightarrow> (Inr resp, c2)
           | (Inl err, c2) \<Rightarrow>
               (let c3 = update_endpoint ep (SetHealthy False) c2
                in if 0 < left then
                     (case at_cancel (env i) of
                        Some ctxErr \<Rightarrow> (Inl ctxErr, c3)
                      | None \<Rightarrow>
                          retry_loop left env (Suc i) body (Some err) (at_world (env i) c3))
                   else retry_loop left env (Suc i) body (Some err) c3)))"

definition ForwardWithRetry ::
  "'tls Chain \<Rightarrow> bytes \<Rightarrow> int \<Rightarrow> (nat \<Rightarrow> 'tls attempt) \<Rightarrow> (go_error + bytes) \<times> 'tls Chain" where
  "ForwardWithRetry c body maxRetries env = retry_loop (nat (maxRetries + 1)) env 0 body None c"

definition UpdateHighestBlock :: "int \<Rightarrow> 'tls Chain \<Rightarrow> 'tls Chain" where
  "UpdateHighestBlock height c = c\<lparr>highestBlock := height\<rparr>"

definition HealthyEndpoints :: "'tls Chain \<Rightarrow> int" where
  "HealthyEndpoints c = HealthyCount (flags c) (loadBalancer c)"

definition TotalEndpoints :: "'tls Chain \<Rightarrow> int" where
  "TotalEndpoints c = int (length (endpoints c))"

record ChainStats =
  cs_Name :: string
  cs_ChainID :: int
  cs_HighestBlock :: int
  cs_HealthyEndpoints :: int
  cs_TotalEndpoints :: int
  cs_Endpoints :: "EndpointStats list"

definition Chain_Stats :: "'tls Chain \<Rightarrow> ChainStats" where
  "Chain_Stats c =
     \<lparr>cs_Name = ch_Name c, cs_ChainID = ch_ChainID c, cs_HighestBlock = highestBlock c,
      cs_HealthyEndpoints = HealthyEndpoints c, cs_TotalEndpoints = int (length (endpoints c)),
      cs_Endpoints = map ep_Stats (endpoints c)\<rparr>"

section \<open>The manager\<close>

text \<open>The map of chains, in the order a \<open>range\<close> over it happens to take.\<close>

type_synonym 'tls Manager = "'tls Chain gomap"

definition NewManagerWithOptions ::
  "ChainConfig gomap \<Rightarrow> 'tls option \<Rightarrow> 'tls Manager" where
  "NewManagerWithOptions cfgs tls =
     map (\<lambda>(name, cfg). (name, NewChainWithOptions
       \<lparr>co_Name = name, co_Config = cfg, co_TLSConfig = tls\<rparr>)) cfgs"

definition NewManager :: "ChainConfig gomap \<Rightarrow> 'tls Manager" where
  "NewManager cfgs = NewManagerWithOptions cfgs None"

definition GetChain :: "'tls Manager \<Rightarrow> string \<Rightarrow> 'tls Chain option" where
  "GetChain m name = map_of m name"

fun GetChainByID :: "'tls Manager \<Rightarrow> int \<Rightarrow> 'tls Chain option" where
  "GetChainByID [] chainID = None"
| "GetChainByID ((name, c) # m) chainID =
     (if ch_ChainID c = chainID then Some c else GetChainByID m chainID)"

definition ListChains :: "'tls Manager \<Rightarrow> string list" where
  "ListChains m = map fst m"

definition AllStats :: "'tls Manager \<Rightarrow> ChainStats gomap" where
  "AllStats m = map (\<lambda>(name, c). (name, Chain_Stats c)) m"

text \<open>Writing a chain back; in the code the map holds pointers, so a chain changes in place.\<close>

definition put_chain :: "string \<Rightarrow> 'tls Chain \<Rightarrow> 'tls Manager \<Rightarrow> 'tls Manager" where
  "put_chain name c m = map (\<lambda>(k, c'). (k, if k = name then c else c')) m"

definition Manager_Start :: "'tls Manager \<Rightarrow> 'tls Manager" where
  "Manager_Start m =
     map (\<lambda>(k, c). (k, c\<lparr>healthChecker := (healthChecker c)\<lparr>hk_running := True\<rparr>\<rparr>)) m"

definition Manager_Stop :: "'tls Manager \<Rightarrow> 'tls Manager" where
  "Manager_Stop m =
     map (\<lambda>(k, c). (k, c\<lparr>healthChecker := (healthChecker c)\<lparr>hk_running := False\<rparr>\<rparr>)) m"

section \<open>Invariant\<close>

definition chain_ok :: "'tls Chain \<Rightarrow> bool" where
  "chain_ok c \<longleftrightarrow>
     lb_ok (loadBalancer c) \<and> lb_endpoints (loadBalancer c) = [0..<length (endpoints c)] \<and>
     weights (loadBalancer c) = map Weight (endpoints c)"

lemma Weight_endpoint_of_config [simp]: "Weight (endpoint_of_config tls cfg e) = epc_Weight e"
  by (simp add: endpoint_of_config_def NewEndpointWithOptions_def Let_def)

lemma chain_ok_new:
  assumes "\<forall>e\<in>set (cc_Endpoints cfg). 0 \<le> epc_Weight e"
    and "sum_list (map epc_Weight (cc_Endpoints cfg)) < 2 ^ 63"
  shows "chain_ok (NewChainWithOptions \<lparr>co_Name = name, co_Config = cfg, co_TLSConfig = tls\<rparr>)"
proof -
  let ?eps = "map (endpoint_of_config tls cfg) (cc_Endpoints cfg)"
  have "map (\<lambda>i. Weight (?eps ! i)) [0..<length ?eps] = map epc_Weight (cc_Endpoints cfg)"
    by (rule nth_equalityI) simp_all
  moreover have "map Weight ?eps = map epc_Weight (cc_Endpoints cfg)" by simp
  ultimately show ?thesis
    using assms
    by (auto simp: chain_ok_def lb_ok_def NewChainWithOptions_def NewLoadBalancer_def Let_def
        simp del: map_map)
qed

lemma length_update [simp]:
  "length (endpoints (update_endpoint i f c)) = length (endpoints c)"
  "length (endpoints (snd (forward_on i body ck http c))) = length (endpoints c)"
  "endpoints (snd (chain_next c)) = endpoints c"
  by (simp_all add: update_endpoint_def forward_on_def chain_next_def split_def Let_def)

lemma names_kept [simp]:
  "ch_Name (update_endpoint i f c) = ch_Name c"
  "ch_Name (snd (forward_on i body ck http c)) = ch_Name c"
  "ch_Name (snd (chain_next c)) = ch_Name c"
  "loadBalancer (update_endpoint i f c) = loadBalancer c"
  "loadBalancer (snd (forward_on i body ck http c)) = loadBalancer c"
  by (simp_all add: update_endpoint_def forward_on_def chain_next_def split_def Let_def)

lemma flags_forward_on [simp]: "flags (snd (forward_on i body ck http c)) = flags c"
  by (auto simp: fun_eq_iff flags_def forward_on_def IsHealthy_def split_def Let_def nth_update_if
      split: if_splits)

lemma flags_mark_down [simp]:
  "flags (update_endpoint i (SetHealthy False) c) = mark_down (flags c) i"
  by (auto simp: fun_eq_iff flags_def update_endpoint_def IsHealthy_def SetHealthy_def
      nth_update_if mark_down_def split: if_splits)

lemma flags_chain_next [simp]: "flags (snd (chain_next c)) = flags c"
  by (simp add: fun_eq_iff flags_def)

lemma chain_ok_forward_on [simp]: "chain_ok c \<Longrightarrow> chain_ok (snd (forward_on i body ck http c))"
  by (simp add: chain_ok_def) (simp add: forward_on_def split_def Let_def map_update_same)

lemma chain_ok_SetHealthy [simp]: "chain_ok c \<Longrightarrow> chain_ok (update_endpoint i (SetHealthy h) c)"
  by (simp add: chain_ok_def) (simp add: update_endpoint_def SetHealthy_def map_update_same)

lemma chain_ok_next [simp]: "chain_ok c \<Longrightarrow> chain_ok (snd (chain_next c))"
  using Next_lb_ok [of "loadBalancer c"]
  by (cases "Next_seq (flags c) (loadBalancer c)")
    (simp add: chain_ok_def chain_next_def split_def Let_def)

lemma chain_next_Inr:
  "chain_next c = (Inr ep, c1) \<Longrightarrow> flags c ep \<and> c1 = snd (chain_next c)"
  using Next_member [of "flags c" "flags c" "flags c" "loadBalancer c" ep]
  by (auto simp: chain_next_def split_def Let_def prod_eq_iff)

lemma chain_next_Inl:
  assumes "chain_ok c" and "chain_next c = (Inl err, c1)"
  shows "err = ErrNoHealthyEndpoints \<and> c1 = c"
proof -
  have "Next_seq (flags c) (loadBalancer c) = (Inl err, snd (Next_seq (flags c) (loadBalancer c)))"
    using assms(2) by (simp add: chain_next_def split_def Let_def prod_eq_iff)
  with lb.next_Inl [of "loadBalancer c" "flags c"] assms show ?thesis
    by (cases "Next_seq (flags c) (loadBalancer c)") (auto simp: chain_ok_def chain_next_def)
qed

section \<open>The retry loop\<close>

text \<open>Attempts during which nothing else touches the chain and the client keeps waiting.\<close>

definition undisturbed :: "(nat \<Rightarrow> 'tls attempt) \<Rightarrow> bool" where
  "undisturbed env \<longleftrightarrow> (\<forall>k c. at_world (env k) c = c)"

definition all_fail :: "(nat \<Rightarrow> 'tls attempt) \<Rightarrow> bool" where
  "all_fail env \<longleftrightarrow>
     (\<forall>k i b. transport_error (at_http (env k) i b) \<noteq> None) \<and> (\<forall>k. at_cancel (env k) = None)"

lemma forward_on_fails:
  "transport_error (http i body) \<noteq> None \<Longrightarrow> \<exists>err. fst (forward_on i body ck http c) = Inl err"
  by (auto simp: forward_on_def split_def Let_def Forward_result split: option.split)

text \<open>
  \<open>attempt_on c body env k ep\<close>: attempt \<open>k\<close> forwards the body to endpoint \<open>ep\<close> as it is in \<open>c\<close>. The
  next lemmas unroll one iteration whose attempt fails.
\<close>

definition attempt_on ::
  "'tls Chain \<Rightarrow> bytes \<Rightarrow> (nat \<Rightarrow> 'tls attempt) \<Rightarrow> nat \<Rightarrow> nat \<Rightarrow> (go_error + bytes) \<times> 'tls Endpoint" where
  "attempt_on c body env k ep =
     Forward (endpoints c ! ep) body (at_clock (env k)) (at_http (env k) ep)"

lemma retry_step_fails:
  assumes "undisturbed env" and "all_fail env" and "chain_next c = (Inr ep, c1)"
  obtains err c3 where "fst (attempt_on c body env i ep) = Inl err"
    and "retry_loop (Suc n) env i body lastErr c = retry_loop n env (Suc i) body (Some err) c3"
    and "endpoints c3 = (endpoints c)[ep := SetHealthy False (snd (attempt_on c body env i ep))]"
    and "flags c3 = mark_down (flags c) ep" and "loadBalancer c3 = loadBalancer c1"
    and "ch_Name c3 = ch_Name c" and "chain_ok c \<Longrightarrow> chain_ok c3"
proof -
  have c1: "c1 = snd (chain_next c)" and eps: "endpoints c1 = endpoints c"
    using assms(3) length_update(3) [of c] by simp_all
  obtain err where "fst (forward_on ep body (at_clock (env i)) (at_http (env i)) c1) = Inl err"
    using forward_on_fails [of "at_http (env i)" ep body] assms(2)
    unfolding all_fail_def by blast
  then obtain c2 where fw: "forward_on ep body (at_clock (env i)) (at_http (env i)) c1 = (Inl err, c2)"
    by (metis prod.collapse)
  then have c2: "c2 = snd (forward_on ep body (at_clock (env i)) (at_http (env i)) c1)" by simp
  let ?c3 = "update_endpoint ep (SetHealthy False) c2"
  have fl: "flags c ep" using assms(3) chain_next_Inr by blast
  then have ep: "ep < length (endpoints c)" by (simp add: flags_def)
  show thesis
  proof
    show "fst (attempt_on c body env i ep) = Inl err"
      using fw eps by (auto simp: attempt_on_def forward_on_def split_def Let_def)
    show "retry_loop (Suc n) env i body lastErr c = retry_loop n env (Suc i) body (Some err) ?c3"
      using assms fw by (simp add: undisturbed_def all_fail_def Let_def)
    show "endpoints ?c3 = (endpoints c)[ep := SetHealthy False (snd (attempt_on c body env i ep))]"
      using ep eps fw
      by (auto simp: attempt_on_def forward_on_def split_def Let_def update_endpoint_def)
  qed (use c1 c2 in simp_all)
qed

lemma retry_all_fail:
  assumes "chain_ok c" and "undisturbed env" and "all_fail env"
    and "retry_loop n env i body lastErr c = (r, c')"
  shows "(\<forall>ep. flags c' ep =
      (flags c ep \<and> ep \<notin> set (failover Next_seq n (flags c) (loadBalancer c)))) \<and>
    (length (failover Next_seq n (flags c) (loadBalancer c)) < n \<longrightarrow>
       r = Inl (no_endpoint c ErrNoHealthyEndpoints))"
  using assms
proof (induction n arbitrary: c i lastErr)
  case (Suc n)
  obtain sel c1 where next1: "chain_next c = (sel, c1)" by fastforce
  then have fo: "Next_seq (flags c) (loadBalancer c) = (sel, loadBalancer c1)"
    by (auto simp: chain_next_def split_def Let_def)
  show ?case
  proof (cases sel)
    case (Inl err)
    with chain_next_Inl [OF Suc.prems(1)] next1 have "err = ErrNoHealthyEndpoints" "c1 = c"
      by blast+
    with Suc.prems next1 Inl fo show ?thesis by auto
  next
    case (Inr ep)
    with next1 have "chain_next c = (Inr ep, c1)" by simp
    from retry_step_fails [OF Suc.prems(2,3) this, where n = n] obtain err c3
      where "retry_loop (Suc n) env i body lastErr c = retry_loop n env (Suc i) body (Some err) c3"
        "flags c3 = mark_down (flags c) ep" "loadBalancer c3 = loadBalancer c1"
        "ch_Name c3 = ch_Name c" "chain_ok c3"
      using Suc.prems(1) by metis
    with Suc.IH [of c3 "Suc i" "Some err"] Suc.prems(2-4) fo Inr show ?thesis
      by (simp add: no_endpoint_def mark_down_def) blast
  qed
qed auto

text \<open>The endpoints after a failed call: the \<open>k\<close>-th of the failover list was sent the \<open>k\<close>-th attempt.\<close>

definition attempts_made ::
  "'tls Chain \<Rightarrow> bytes \<Rightarrow> (nat \<Rightarrow> 'tls attempt) \<Rightarrow> nat \<Rightarrow> nat list \<Rightarrow> 'tls Chain \<Rightarrow> bool" where
  "attempts_made c body env i tried c' \<longleftrightarrow>
     length (endpoints c') = length (endpoints c) \<and>
     (\<forall>k < length tried. endpoints c' ! (tried ! k) =
        SetHealthy False (snd (attempt_on c body env (i + k) (tried ! k)))) \<and>
     (\<forall>ep < length (endpoints c). ep \<notin> set tried \<longrightarrow> endpoints c' ! ep = endpoints c ! ep)"

lemma attempts_made_Cons:
  assumes "attempts_made c3 body env (Suc i) tried c'" and "ep < length (endpoints c)"
    and "endpoints c3 = (endpoints c)[ep := SetHealthy False (snd (attempt_on c body env i ep))]"
    and "ep \<notin> set tried"
  shows "attempts_made c body env i (ep # tried) c'"
proof -
  have other: "attempt_on c3 body env k j = attempt_on c body env k j" if "j \<noteq> ep" for k j
    using assms(2,3) that by (simp add: attempt_on_def)
  have "endpoints c' ! ((ep # tried) ! k) =
      SetHealthy False (snd (attempt_on c body env (i + k) ((ep # tried) ! k)))"
    if "k < length (ep # tried)" for k
  proof (cases k)
    case 0
    with assms show ?thesis by (simp add: attempts_made_def)
  next
    case (Suc j)
    then have "j < length tried" using that by simp
    moreover from this assms(4) have "tried ! j \<noteq> ep" using nth_mem by metis
    ultimately show ?thesis using assms(1) Suc by (simp add: attempts_made_def other)
  qed
  with assms show ?thesis by (simp add: attempts_made_def)
qed

lemma retry_attempts:
  assumes "chain_ok c" and "undisturbed env" and "all_fail env"
    and "retry_loop n env i body lastErr c = (r, c')"
    and "tried = failover Next_seq n (flags c) (loadBalancer c)"
  shows "attempts_made c body env i tried c' \<and>
    (length tried = n \<and> 0 < n \<longrightarrow>
       (\<exists>e. fst (attempt_on c body env (i + n - 1) (last tried)) = Inl e \<and> r = Inl (retries_failed (Some e)))) \<and>
    (n = 0 \<longrightarrow> r = Inl (retries_failed lastErr))"
  using assms
proof (induction n arbitrary: c i lastErr tried)
  case 0
  then show ?case by (simp add: attempts_made_def)
next
  case (Suc n)
  obtain sel c1 where next1: "chain_next c = (sel, c1)" by fastforce
  then have fo: "Next_seq (flags c) (loadBalancer c) = (sel, loadBalancer c1)"
    by (auto simp: chain_next_def split_def Let_def)
  show ?case
  proof (cases sel)
    case (Inl err)
    with chain_next_Inl [OF Suc.prems(1)] next1 have "c1 = c" by blast
    with Suc.prems next1 Inl fo show ?thesis by (auto simp: attempts_made_def)
  next
    case (Inr ep)
    with next1 have next2: "chain_next c = (Inr ep, c1)" by simp
    then have ep: "ep < length (endpoints c)" using chain_next_Inr by (auto simp: flags_def)
    from retry_step_fails [OF Suc.prems(2,3) next2, where n = n] obtain err c3
      where err: "fst (attempt_on c body env i ep) = Inl err"
        and loop: "retry_loop (Suc n) env i body lastErr c = retry_loop n env (Suc i) body (Some err) c3"
        and eps: "endpoints c3 = (endpoints c)[ep := SetHealthy False (snd (attempt_on c body env i ep))]"
        and fl: "flags c3 = mark_down (flags c) ep" and lb: "loadBalancer c3 = loadBalancer c1"
        and ok: "chain_ok c3"
      using Suc.prems(1) by metis
    let ?tl = "failover Next_seq n (flags c3) (loadBalancer c3)"
    have tried: "tried = ep # ?tl" using Suc.prems(5) fo Inr fl lb by simp
    have tl: "set ?tl \<subseteq> {ep. flags c3 ep}"
      using lb.failover_members [of "loadBalancer c3" n "flags c3"] ok by (auto simp: chain_ok_def)
    then have fresh: "ep \<notin> set ?tl" using fl mark_downD by fastforce
    note ih = Suc.IH [OF ok Suc.prems(2,3) Suc.prems(4) [unfolded loop] refl]
    have same: "attempt_on c3 body env k (last ?tl) = attempt_on c body env k (last ?tl)" if "?tl \<noteq> []" for k
    proof -
      from that fresh have "last ?tl \<noteq> ep" using last_in_set by metis
      with eps ep show ?thesis by (simp add: attempt_on_def)
    qed
    have made: "attempts_made c body env i tried c'"
      unfolding tried using ih ep eps fresh by (intro attempts_made_Cons) auto
    show ?thesis
    proof (cases n)
      case 0
      with ih err made tried show ?thesis by simp
    next
      case (Suc m)
      with ih made tried same show ?thesis by auto
    qed
  qed
qed

text \<open>No endpoint is asked twice in one call, and an unhealthy one is not touched at all.\<close>

lemma Forward_total:
  "totalReqs (snd (Forward e body ck http)) \<in> {totalReqs e, wrap64 (totalReqs e + 1)}"
  using Forward_denied [of e ck body http] Forward_counters(1) [of e ck body http]
  by (cases "admits e ck") auto

lemma forward_on_nth:
  "j < length (endpoints c) \<Longrightarrow> endpoints (snd (forward_on i body ck http c)) ! j =
     (if j = i then snd (Forward (endpoints c ! i) body ck (http i)) else endpoints c ! j)"
  by (simp add: forward_on_def split_def Let_def nth_update_if)

lemma SetHealthy_nth:
  "j < length (endpoints c) \<Longrightarrow> endpoints (update_endpoint i (SetHealthy h) c) ! j =
     (if j = i then SetHealthy h (endpoints c ! i) else endpoints c ! j)"
  by (simp add: update_endpoint_def nth_update_if)

definition asked_once :: "'tls Chain \<Rightarrow> 'tls Chain \<Rightarrow> bool" where
  "asked_once c c' \<longleftrightarrow> length (endpoints c') = length (endpoints c) \<and>
     (\<forall>j < length (endpoints c).
        (\<not> flags c j \<longrightarrow> endpoints c' ! j = endpoints c ! j) \<and>
        totalReqs (endpoints c' ! j) \<in>
          {totalReqs (endpoints c ! j), wrap64 (totalReqs (endpoints c ! j) + 1)})"

lemma asked_once_refl: "endpoints c' = endpoints c \<Longrightarrow> asked_once c c'"
  by (simp add: asked_once_def)

lemma asked_once_forward:
  "flags c ep \<Longrightarrow> endpoints c1 = endpoints c \<Longrightarrow> asked_once c (snd (forward_on ep body ck http c1))"
  using Forward_total [of "endpoints c ! ep" body ck "http ep"]
  by (auto simp: asked_once_def forward_on_nth)

lemma asked_once_down:
  "flags c ep \<Longrightarrow> asked_once c c1 \<Longrightarrow> asked_once c (update_endpoint ep (SetHealthy False) c1)"
  by (auto simp: asked_once_def SetHealthy_nth SetHealthy_def)

lemma asked_once_later:
  assumes "asked_once c c1" and "asked_once c1 c2"
    and "\<And>j. flags c1 j \<Longrightarrow> flags c j \<and> endpoints c1 ! j = endpoints c ! j"
  shows "asked_once c c2"
  using assms by (auto simp: asked_once_def) metis+

lemma retry_asked_once:
  assumes "undisturbed env" and "retry_loop n env i body lastErr c = (r, c')"
  shows "asked_once c c'"
  using assms
proof (induction n arbitrary: c i lastErr)
  case 0
  then show ?case by (simp add: asked_once_refl)
next
  case (Suc n)
  obtain sel c1 where next1: "chain_next c = (sel, c1)" by fastforce
  then have eps: "endpoints c1 = endpoints c" by (metis length_update(3) snd_conv)
  show ?case
  proof (cases sel)
    case (Inl err)
    with next1 Suc.prems(2) eps show ?thesis by (simp add: asked_once_refl)
  next
    case (Inr ep)
    with next1 have fl: "flags c ep" using chain_next_Inr by blast
    have fl1: "flags c1 = flags c" using flags_chain_next [of c] next1 by simp
    obtain fr c2 where fw: "forward_on ep body (at_clock (env i)) (at_http (env i)) c1 = (fr, c2)"
      by fastforce
    then have c2: "c2 = snd (forward_on ep body (at_clock (env i)) (at_http (env i)) c1)" by simp
    have once2: "asked_once c c2" unfolding c2 using fl eps by (rule asked_once_forward)
    define c3 where "c3 = update_endpoint ep (SetHealthy False) c2"
    have once3: "asked_once c c3" unfolding c3_def using fl once2 by (rule asked_once_down)
    have fl3: "flags c j \<and> endpoints c3 ! j = endpoints c ! j" if "flags c3 j" for j
    proof -
      from that have j: "j \<noteq> ep" "flags c j"
        using mark_downD [of "flags c" ep j] fl1 by (simp_all add: c3_def c2)
      moreover from j(2) have "j < length (endpoints c)" by (simp add: flags_def)
      ultimately show ?thesis using eps by (simp add: c3_def c2 SetHealthy_nth forward_on_nth)
    qed
    have "asked_once c c'" if "retry_loop n env (Suc i) body le c3 = (r, c')" for le
      using asked_once_later [OF once3 Suc.IH [OF Suc.prems(1) that] fl3] .
    with Suc.prems next1 Inr fw once2 once3 show ?thesis
      by (auto simp: c3_def [symmetric] Let_def undisturbed_def split: sum.splits if_splits option.splits)
  qed
qed

text \<open>A response comes from a backend that was asked in this call.\<close>

lemma forward_on_Inr:
  "forward_on ep body ck http c = (Inr resp, c') \<Longrightarrow> \<exists>code d. http ep body = Response code resp d"
  by (cases "http ep body")
    (auto simp: forward_on_def split_def Let_def prod_eq_iff Forward_result split: if_splits)

lemma retry_success:
  assumes "retry_loop n env i body lastErr c = (Inr resp, c')"
  shows "\<exists>k ep code d. i \<le> k \<and> k < i + n \<and> at_http (env k) ep body = Response code resp d"
  using assms
proof (induction n arbitrary: c i lastErr)
  case (Suc n)
  obtain sel c1 where next1: "chain_next c = (sel, c1)" by fastforce
  show ?case
  proof (cases sel)
    case (Inl err)
    with next1 Suc.prems show ?thesis by simp
  next
    case (Inr ep)
    obtain fr c2 where fw: "forward_on ep body (at_clock (env i)) (at_http (env i)) c1 = (fr, c2)"
      by fastforce
    show ?thesis
    proof (cases fr)
      case (Inr b)
      with Suc.prems next1 \<open>sel = Inr ep\<close> fw have "b = resp" by simp
      with forward_on_Inr [of ep body "at_clock (env i)" "at_http (env i)" c1 resp c2] fw Inr
      show ?thesis by (intro exI [of _ i] exI [of _ ep]) auto
    next
      case (Inl err)
      with Suc.prems next1 \<open>sel = Inr ep\<close> fw obtain le c3
        where "retry_loop n env (Suc i) body le c3 = (Inr resp, c')"
        by (auto simp: Let_def split: if_splits option.splits)
      from Suc.IH [OF this] show ?thesis
        by (metis Suc_leD add_Suc add_Suc_right)
    qed
  qed
qed simp

section \<open>Statistics\<close>

text \<open>
  A response is the unaltered body that some backend returned for this very request in one of
  at most \<open>maxRetries + 1\<close> attempts, whatever other goroutines did meanwhile.
\<close>

lemma retry_Inr_from_backend:
  assumes "fst (ForwardWithRetry c body maxRetries env) = Inr resp"
  shows "\<exists>k ep code d. int k \<le> maxRetries \<and> at_http (env k) ep body = Response code resp d"
proof -
  have "retry_loop (nat (maxRetries + 1)) env 0 body None c =
      (Inr resp, snd (ForwardWithRetry c body maxRetries env))"
    using assms by (simp add: ForwardWithRetry_def prod_eq_iff)
  from retry_success [OF this] show ?thesis by force
qed

lemma HealthyEndpoints_count:
  assumes "chain_ok c"
  shows "HealthyEndpoints c = int (length (filter healthy (endpoints c)))"
proof -
  have "filter (flags c) [0..<length (endpoints c)] =
      filter (\<lambda>i. healthy (endpoints c ! i)) [0..<length (endpoints c)]"
    by (rule filter_cong) (simp_all add: flags_def IsHealthy_def)
  then have "length (filter (flags c) [0..<length (endpoints c)]) = length (filter healthy (endpoints c))"
    by (metis (no_types, lifting) comp_apply filter_cong filter_map length_map map_nth)
  with assms show ?thesis
    by (simp add: HealthyEndpoints_def HealthyCount_def count_healthy_eq chain_ok_def)
qed

lemma GetChainByID_Some: "GetChainByID m i = Some c \<Longrightarrow> c \<in> snd ` set m \<and> ch_ChainID c = i"
  by (induction m i rule: GetChainByID.induct) (auto split: if_splits)

lemma GetChainByID_None: "(GetChainByID m i = None) = (\<forall>c\<in>snd ` set m. ch_ChainID c \<noteq> i)"
  by (induction m i rule: GetChainByID.induct) auto

lemma failover_length: "length (failover nx n h l) \<le> n"
  by (induction n arbitrary: h l) (auto split: prod.split sum.split)

lemma chain_usable:
  assumes "chain_ok c" and "ep < length (endpoints c)" and "0 < Weight (endpoints c ! ep)"
  shows "\<exists>w. (ep, w) \<in> set (weighted (loadBalancer c)) \<and> 0 < w"
  using assms
  by (intro exI [of _ "Weight (endpoints c ! ep)"])
    (auto simp: chain_ok_def set_zip intro!: exI [of _ ep])

text \<open>Concrete chains for the witnesses.\<close>

definition sample_chain :: "unit Chain" where
  "sample_chain = NewChain ''ethereum'' (the (snd (cfg_Chains sample_config ! 0)))"

definition failing_attempt :: "unit attempt" where
  "failing_attempt = \<lparr>at_clock = \<lparr>t_allow = 0, t_record = 0, t_trip = 0\<rparr>,
     at_http = (\<lambda>_ _. DoFails (ErrNew ''refused'') 0), at_cancel = None, at_world = (\<lambda>c. c)\<rparr>"

lemma sample_chain_ok: "chain_ok sample_chain"
  unfolding sample_chain_def NewChain_def
  by (rule chain_ok_new) (simp_all add: sample_config_def Let_def)

lemma sample_chain_simps:
  "length (endpoints sample_chain) = 2" "ch_Name sample_chain = ''ethereum''"
  "healthy (endpoints sample_chain ! 0)" "healthy (endpoints sample_chain ! Suc 0)"
  "Weight (endpoints sample_chain ! 0) = 2" "Weight (endpoints sample_chain ! Suc 0) = 1"
  by (simp_all add: sample_chain_def NewChain_def NewChainWithOptions_def sample_config_def
      endpoint_of_config_def NewEndpointWithOptions_def Let_def)

lemma failing_attempt_simps [simp]:
  "undisturbed (\<lambda>_. failing_attempt)" "all_fail (\<lambda>_. failing_attempt)"
  by (simp_all add: undisturbed_def all_fail_def failing_attempt_def)

section \<open>Properties\<close>

text \<open>
  C3. When every backend fails, a request is forwarded to distinct healthy endpoints, one per
  attempt: attempt \<open>k\<close> is one \<open>Forward\<close> on \<open>tried ! k\<close>, after which that endpoint is marked
  unhealthy, and no other endpoint is sent anything or changes. It gives up after
  \<open>maxRetries + 1\<close> attempts, with the last attempt's error, or earlier only when every healthy
  endpoint with a positive weight has been tried.
\<close>

theorem retry_fails_over:
  assumes "chain_ok c" and "undisturbed env" and "all_fail env" and "0 \<le> maxRetries"
    and "ForwardWithRetry c body maxRetries env = (r, c')"
  shows "\<exists>tried. distinct tried \<and> set tried \<subseteq> {ep. flags c ep} \<and>
    (\<forall>k < length tried. endpoints c' ! (tried ! k) = SetHealthy False
       (snd (Forward (endpoints c ! (tried ! k)) body (at_clock (env k)) (at_http (env k) (tried ! k))))) \<and>
    (\<forall>ep < length (endpoints c). ep \<notin> set tried \<longrightarrow> endpoints c' ! ep = endpoints c ! ep) \<and>
    (\<forall>ep. flags c' ep = (flags c ep \<and> ep \<notin> set tried)) \<and>
    (int (length tried) = maxRetries + 1 \<and>
       (\<exists>e. fst (Forward (endpoints c ! last tried) body (at_clock (env (nat maxRetries)))
               (at_http (env (nat maxRetries)) (last tried))) = Inl e \<and> r = Inl (retries_failed (Some e))) \<or>
     int (length tried) < maxRetries + 1 \<and> r = Inl (no_endpoint c ErrNoHealthyEndpoints) \<and>
     (\<forall>ep. flags c ep \<and> 0 < Weight (endpoints c ! ep) \<longrightarrow> ep \<in> set tried))"
proof -
  let ?n = "nat (maxRetries + 1)"
  let ?tried = "failover Next_seq ?n (flags c) (loadBalancer c)"
  have ok: "lb_ok (loadBalancer c)" using assms(1) by (simp add: chain_ok_def)
  note loop = assms(5) [unfolded ForwardWithRetry_def]
  note all = retry_all_fail [OF assms(1-3) loop] and made = retry_attempts [OF assms(1-3) loop refl]
  have n: "?n - 1 = nat maxRetries" "0 < ?n" using assms(4) by simp_all
  have "set ?tried \<subseteq> {ep. flags c ep}" and "distinct ?tried"
    using lb.failover_members [OF ok] lb.failover_distinct [OF ok] by blast+
  moreover have "ep \<in> set ?tried"
    if "length ?tried < ?n" and "flags c ep" and "0 < Weight (endpoints c ! ep)" for ep
    using lb.failover_exhausts [OF ok that(1)] chain_usable [OF assms(1) _ that(3)] that(2) assms(1)
    by (auto simp: flags_def chain_ok_def)
  moreover have "length ?tried \<le> ?n" by (rule failover_length)
  ultimately show ?thesis
    using all made n assms(4)
    by (intro exI [of _ ?tried]) (auto simp: le_less attempts_made_def attempt_on_def)
qed

theorem retry_fails_over_witness:
  "\<exists>c'. ForwardWithRetry sample_chain ''{}'' 2 (\<lambda>_. failing_attempt) =
     (Inl (ErrWrap ''chain ethereum'' ErrNoHealthyEndpoints), c') \<and> (\<forall>ep. \<not> flags c' ep)"
proof -
  let ?r = "ForwardWithRetry sample_chain ''{}'' 2 (\<lambda>_. failing_attempt)"
  have "ForwardWithRetry sample_chain ''{}'' 2 (\<lambda>_. failing_attempt) = (fst ?r, snd ?r)"
    by (rule prod.collapse [symmetric])
  from retry_fails_over [OF sample_chain_ok failing_attempt_simps zero_le_numeral this]
  obtain tried where t: "distinct tried" "set tried \<subseteq> {ep. flags sample_chain ep}"
      "\<forall>ep. flags (snd ?r) ep = (flags sample_chain ep \<and> ep \<notin> set tried)"
    and t4: "int (length tried) = 2 + 1 \<or>
       int (length tried) < 2 + 1 \<and>
         fst ?r = Inl (no_endpoint sample_chain ErrNoHealthyEndpoints) \<and>
         (\<forall>ep. flags sample_chain ep \<and> 0 < Weight (endpoints sample_chain ! ep) \<longrightarrow> ep \<in> set tried)"
    by (elim exE conjE) blast
  have fl: "flags sample_chain ep = (ep = 0 \<or> ep = Suc 0)" for ep
    using sample_chain_simps by (auto simp: flags_def IsHealthy_def less_Suc_eq numeral_2_eq_2)
  then have "set tried \<subseteq> {0, Suc 0}" using t(2) by auto
  then have "card (set tried) \<le> 2" using card_mono [of "{0, Suc 0}" "set tried"] by simp
  then have "length tried \<le> 2" using distinct_card [OF t(1)] by simp
  with t4 have r: "fst ?r = Inl (no_endpoint sample_chain ErrNoHealthyEndpoints)"
    and tried: "\<forall>ep. flags sample_chain ep \<and> 0 < Weight (endpoints sample_chain ! ep) \<longrightarrow> ep \<in> set tried"
    using \<open>length tried \<le> 2\<close> by (elim disjE conjE; simp)+
  have "\<not> flags (snd ?r) ep" for ep
  proof
    assume "flags (snd ?r) ep"
    with t(3) have fe: "flags sample_chain ep" "ep \<notin> set tried" by blast+
    from fe(1) have "ep = 0 \<or> ep = Suc 0" by (simp only: fl)
    then have "0 < Weight (endpoints sample_chain ! ep)"
      by (elim disjE) (simp_all add: sample_chain_simps)
    with fe tried show False by blast
  qed
  moreover have "?r = (Inl (no_endpoint sample_chain ErrNoHealthyEndpoints), snd ?r)"
    using r prod.collapse by metis
  then have "?r = (Inl (ErrWrap ''chain ethereum'' ErrNoHealthyEndpoints), snd ?r)"
    by (simp only: no_endpoint_def sample_chain_simps append.simps)
  ultimately show ?thesis by blast
qed

text \<open>
  However the attempts end, one call of \<open>ForwardWithRetry\<close> sends at most one request to
  an endpoint and does not touch an endpoint that was unhealthy when it started.
\<close>

lemma retry_asks_each_endpoint_once:
  assumes "undisturbed env"
  shows "asked_once c (snd (ForwardWithRetry c body maxRetries env))"
  unfolding ForwardWithRetry_def by (rule retry_asked_once [OF assms prod.collapse [symmetric]])

lemma retry_asks_each_endpoint_once_witness:
  "totalReqs (endpoints (snd (ForwardWithRetry sample_chain ''{}'' 9 (\<lambda>_. failing_attempt))) ! 0)
     \<in> {0, 1}"
proof -
  have "totalReqs (endpoints sample_chain ! 0) = 0"
    by (simp add: sample_chain_def NewChain_def NewChainWithOptions_def sample_config_def
        endpoint_of_config_def NewEndpointWithOptions_def Let_def)
  with retry_asks_each_endpoint_once [of "\<lambda>_. failing_attempt" sample_chain "''{}''" 9]
  show ?thesis unfolding asked_once_def sample_chain_simps by fastforce
qed

end
