(* ===== verification/BlockNumber.thy ===== *)
theory BlockNumber
  imports Prelude
begin

text \<open>
  \<open>parseBlockNumber\<close> of \<open>internal/chain/health.go\<close> with the parts of \<open>strings\<close>,
  \<open>encoding/hex\<close> and \<open>strconv\<close> it uses: the raw JSON result of \<open>eth_blockNumber\<close> becomes a
  block height. The accumulation \<open>height<<8 | int64(b)\<close> is on 64-bit words.
\<close>

unbundle bit_operations_syntax

section \<open>Library functions\<close>

text \<open>\<open>strings.Trim(s, "\"")\<close> and \<open>strings.TrimPrefix\<close>.\<close>

definition quote_char :: char where
  "quote_char = CHR 0x22"

definition trim_quotes :: "string \<Rightarrow> string" where
  "trim_quotes s =
     rev (dropWhile (\<lambda>c. c = quote_char) (rev (dropWhile (\<lambda>c. c = quote_char) s)))"

definition trim_prefix :: "string \<Rightarrow> string \<Rightarrow> string" where
  "trim_prefix p s = (if take (length p) s = p then drop (length p) s else s)"

fun hex_digit :: "char \<Rightarrow> nat option" where
  "hex_digit c =
     (let n = of_char c :: nat
      in if 48 \<le> n \<and> n \<le> 57 then Some (n - 48)
         else if 97 \<le> n \<and> n \<le> 102 then Some (n - 87)
         else if 65 \<le> n \<and> n \<le> 70 then Some (n - 55)
         else None)"

text \<open>\<open>hex.DecodeString\<close>; \<open>None\<close> is an error (a byte that is no hex digit, or odd length).\<close>

fun decode_hex :: "string \<Rightarrow> nat list option" where
  "decode_hex [] = Some []"
| "decode_hex [c] = None"
| "decode_hex (c # d # s) =
     (case (hex_digit c, hex_digit d) of
        (Some a, Some b) \<Rightarrow> map_option ((#) (16 * a + b)) (decode_hex s)
      | _ \<Rightarrow> None)"

definition dec_digit :: "char \<Rightarrow> nat option" where
  "dec_digit c =
     (let n = of_char c :: nat in if 48 \<le> n \<and> n \<le> 57 then Some (n - 48) else None)"

text \<open>\<open>strconv.ParseUint(s, 10, 64)\<close> and \<open>strconv.ParseInt(s, 10, 64)\<close>.\<close>

fun parse_uint_loop :: "nat \<Rightarrow> string \<Rightarrow> go_error + nat" where
  "parse_uint_loop n [] = Inr n"
| "parse_uint_loop n (c # s) =
     (case dec_digit c of
        None \<Rightarrow> Inl (ErrNew ''invalid syntax'')
      | Some d \<Rightarrow>
          (if 2 ^ 64 \<le> 10 * n + d then Inl (ErrNew ''value out of range'')
           else parse_uint_loop (10 * n + d) s))"

definition ParseUint :: "string \<Rightarrow> go_error + nat" where
  "ParseUint s = (if s = [] then Inl (ErrNew ''invalid syntax'') else parse_uint_loop 0 s)"

definition ParseInt :: "string \<Rightarrow> go_error + int" where
  "ParseInt s =
     (let neg = (s \<noteq> [] \<and> hd s = CHR ''-'');
          digits = (if s \<noteq> [] \<and> (hd s = CHR ''+'' \<or> hd s = CHR ''-'') then tl s else s)
      in case ParseUint digits of
           Inl err \<Rightarrow> Inl err
         | Inr un \<Rightarrow>
             (if \<not> neg \<and> 2 ^ 63 \<le> un \<or> neg \<and> 2 ^ 63 < un
              then Inl (ErrNew ''value out of range'')
              else Inr (if neg then - int un else int un)))"

section \<open>The parser\<close>

fun height_loop :: "64 word \<Rightarrow> nat list \<Rightarrow> 64 word" where
  "height_loop height [] = height"
| "height_loop height (b # bs) = height_loop (push_bit 8 height OR word_of_nat b) bs"

definition parseBlockNumber :: "bytes \<Rightarrow> go_error + int" where
  "parseBlockNumber raw =
     (let hexStr = trim_prefix ''0x'' (trim_quotes raw)
      in if hexStr = [] then Inr 0
         else
           let hexStr = (if length hexStr mod 2 \<noteq> 0 then CHR ''0'' # hexStr else hexStr)
           in case decode_hex hexStr of
                None \<Rightarrow> ParseInt raw
              | Some bs \<Rightarrow> Inr (sint (height_loop 0 bs)))"

section \<open>Values of digit strings\<close>

definition is_hex :: "char \<Rightarrow> bool" where
  "is_hex c \<longleftrightarrow> hex_digit c \<noteq> None"

definition hex_value :: "string \<Rightarrow> nat" where
  "hex_value s = foldl (\<lambda>a c. 16 * a + the (hex_digit c)) 0 s"

definition bytes_value :: "nat \<Rightarrow> nat list \<Rightarrow> nat" where
  "bytes_value a bs = foldl (\<lambda>a b. 256 * a + b) a bs"

declare hex_digit.simps [simp del]

lemma hex_digit_less: "hex_digit c = Some d \<Longrightarrow> d < 16"
  by (auto simp: hex_digit.simps Let_def split: if_splits)

lemma decode_hex_Some:
  "even (length s) \<Longrightarrow> \<forall>c\<in>set s. is_hex c \<Longrightarrow> \<exists>bs. decode_hex s = Some bs"
  by (induction s rule: decode_hex.induct) (auto simp: is_hex_def)

lemma decode_hex_value:
  "decode_hex s = Some bs \<Longrightarrow>
   bytes_value a bs = foldl (\<lambda>a c. 16 * a + the (hex_digit c)) a s"
  by (induction s arbitrary: bs a rule: decode_hex.induct)
    (auto simp: bytes_value_def algebra_simps split: option.splits)

lemma decode_hex_bytes: "decode_hex s = Some bs \<Longrightarrow> \<forall>b\<in>set bs. b < 256"
  by (induction s arbitrary: bs rule: decode_hex.induct)
    (fastforce dest: hex_digit_less split: option.splits)+

lemma decode_hex_is_hex: "decode_hex s = Some bs \<Longrightarrow> \<forall>c\<in>set s. is_hex c"
  by (induction s arbitrary: bs rule: decode_hex.induct)
    (auto simp: is_hex_def split: option.splits)

lemma shift_or_byte:
  fixes h :: "64 word"
  assumes "b < 256"
  shows "push_bit 8 h OR word_of_nat b = 256 * h + word_of_nat b"
proof -
  have "\<not> bit b n" if "8 \<le> n" for n
  proof -
    have "(2::nat) ^ 8 \<le> 2 ^ n" using that by (rule power_increasing) simp
    with assms have "b < 2 ^ n" by simp
    then show ?thesis by (simp add: bit_iff_odd)
  qed
  then have low: "\<not> (8 \<le> n \<and> bit b n)" for n by blast
  have "push_bit 8 h AND (word_of_nat b :: 64 word) = 0"
  proof (rule bit_eqI)
    fix n
    show "bit (push_bit 8 h AND (word_of_nat b :: 64 word)) n = bit 0 n"
      using low [of n] by (simp only: bit_and_iff bit_push_bit_iff bit_of_nat_iff bit_0_eq) auto
  qed
  then have "push_bit 8 h OR word_of_nat b = push_bit 8 h + (word_of_nat b :: 64 word)"
    by (simp add: disjunctive_add_eq_or)
  then show ?thesis by (simp add: push_bit_eq_mult mult.commute)
qed

lemma height_loop_value:
  "\<forall>b\<in>set bs. b < 256 \<Longrightarrow> height_loop (word_of_nat a) bs = word_of_nat (bytes_value a bs)"
proof (induction bs arbitrary: a)
  case (Cons b bs)
  then have "push_bit 8 (word_of_nat a :: 64 word) OR word_of_nat b = word_of_nat (256 * a + b)"
    by (simp add: shift_or_byte)
  with Cons.IH [of "256 * a + b"] Cons.prems show ?case
    by (simp add: bytes_value_def del: of_nat_add of_nat_mult)
qed (simp add: bytes_value_def)

section \<open>The parser on hexadecimal input\<close>

lemma not_hex [simp]: "\<not> is_hex CHR ''x''" "\<not> is_hex quote_char"
  by (simp_all add: is_hex_def hex_digit.simps quote_char_def)

lemma is_hex_0 [simp]: "is_hex CHR ''0''" "hex_digit CHR ''0'' = Some 0"
  by (simp_all add: is_hex_def hex_digit.simps)

lemma hex_value_pad [simp]: "hex_value (CHR ''0'' # s) = hex_value s"
  by (simp add: hex_value_def)

lemma hex_no_quote: "\<forall>c\<in>set s. is_hex c \<Longrightarrow> quote_char \<notin> set s"
  using not_hex(2) by blast

lemma hex_no_x: "\<forall>c\<in>set s. is_hex c \<Longrightarrow> CHR ''x'' \<notin> set s"
  using not_hex(1) by blast

lemma dropWhile_notin: "c \<notin> set s \<Longrightarrow> dropWhile (\<lambda>d. d = c) s = s"
  by (cases s) auto

lemma trim_quotes_none: "quote_char \<notin> set s \<Longrightarrow> trim_quotes s = s"
  by (simp add: trim_quotes_def dropWhile_notin)

lemma trim_quotes_quoted: "quote_char \<notin> set s \<Longrightarrow> trim_quotes (quote_char # s @ [quote_char]) = s"
proof (cases "s = []")
  case True
  then show ?thesis by (simp add: trim_quotes_def)
next
  case False
  assume q: "quote_char \<notin> set s"
  then have "hd s \<noteq> quote_char" using False by (metis hd_in_set)
  then have "dropWhile (\<lambda>c. c = quote_char) (s @ [quote_char]) = s @ [quote_char]"
    using False by (cases s) auto
  with q show ?thesis by (simp add: trim_quotes_def dropWhile_notin)
qed

lemma trim_prefix_0x [simp]: "trim_prefix ''0x'' (''0x'' @ s) = s"
  by (simp add: trim_prefix_def)

lemma trim_prefix_hex: "\<forall>c\<in>set s. is_hex c \<Longrightarrow> trim_prefix ''0x'' s = s"
proof -
  assume hex: "\<forall>c\<in>set s. is_hex c"
  have "take 2 s \<noteq> ''0x''"
  proof
    assume "take 2 s = ''0x''"
    then have "CHR ''x'' \<in> set s" by (metis in_set_takeD list.set_intros)
    with hex_no_x [OF hex] show False by contradiction
  qed
  then show ?thesis by (simp add: trim_prefix_def numeral_eq_Suc)
qed

lemma sint_word_of_nat: "sint (word_of_nat n :: 64 word) = wrap64 (int n)"
  by (simp add: wrap64_word)

lemma parse_hex_core:
  assumes "trim_prefix ''0x'' (trim_quotes raw) = s" and "s \<noteq> []" and "\<forall>c\<in>set s. is_hex c"
  shows "parseBlockNumber raw = Inr (wrap64 (int (hex_value s)))"
proof -
  define t where "t = (if length s mod 2 \<noteq> 0 then CHR ''0'' # s else s)"
  have t: "even (length t)" "\<forall>c\<in>set t. is_hex c" "hex_value t = hex_value s"
    using assms(3) by (auto simp: t_def mod2_eq_if)
  obtain bs where bs: "decode_hex t = Some bs" using decode_hex_Some [OF t(1,2)] by blast
  have "height_loop 0 bs = word_of_nat (bytes_value 0 bs)"
    using height_loop_value [OF decode_hex_bytes [OF bs], of 0] by simp
  also have "bytes_value 0 bs = hex_value s"
    using decode_hex_value [OF bs, of 0] t(3) by (simp add: hex_value_def)
  finally have "parseBlockNumber raw = Inr (sint (word_of_nat (hex_value s) :: 64 word))"
    using assms bs by (auto simp: parseBlockNumber_def t_def Let_def split: if_splits)
  then show ?thesis by (simp only: sint_word_of_nat)
qed

lemma parse_quoted_hex:
  assumes "s \<noteq> []" and "\<forall>c\<in>set s. is_hex c"
  shows "parseBlockNumber (quote_char # ''0x'' @ s @ [quote_char]) = Inr (wrap64 (int (hex_value s)))"
proof (rule parse_hex_core [OF _ assms])
  have "quote_char \<notin> set (''0x'' @ s)"
    using hex_no_quote [OF assms(2)] by (simp add: quote_char_def)
  then have "trim_quotes (quote_char # (''0x'' @ s) @ [quote_char]) = ''0x'' @ s"
    by (rule trim_quotes_quoted)
  moreover have "quote_char # ''0x'' @ s @ [quote_char] = quote_char # (''0x'' @ s) @ [quote_char]"
    by simp
  ultimately show "trim_prefix ''0x'' (trim_quotes (quote_char # ''0x'' @ s @ [quote_char])) = s"
    by (simp only: trim_prefix_0x)
qed

lemma dec_digit_hex: "dec_digit c = Some d \<Longrightarrow> is_hex c"
  by (auto simp: dec_digit_def is_hex_def hex_digit.simps Let_def split: if_splits)

lemma parse_uint_loop_digits: "parse_uint_loop n s = Inr m \<Longrightarrow> c \<in> set s \<Longrightarrow> dec_digit c \<noteq> None"
  by (induction n s rule: parse_uint_loop.induct) (auto split: option.splits if_splits)

lemma ParseInt_unsigned:
  assumes "ParseInt s = Inr v" and "hd s \<noteq> CHR ''-''" and "hd s \<noteq> CHR ''+''"
  shows "s \<noteq> []" and "\<forall>c\<in>set s. is_hex c"
proof -
  have "\<exists>m. ParseUint s = Inr m"
    using assms by (auto simp: ParseInt_def Let_def split: sum.splits if_splits)
  then obtain m where "s \<noteq> []" "parse_uint_loop 0 s = Inr m"
    by (auto simp: ParseUint_def split: if_splits)
  with parse_uint_loop_digits dec_digit_hex show "s \<noteq> []" and "\<forall>c\<in>set s. is_hex c"
    by (blast, metis not_None_eq)
qed

section \<open>Encoding, for the round trip\<close>

text \<open>A JSON-RPC quantity: quoted, \<open>0x\<close>, lower-case digits without leading zeros.\<close>

definition hex_char :: "nat \<Rightarrow> char" where
  "hex_char d = char_of (if d < 10 then 48 + d else 87 + d)"

fun to_hex :: "nat \<Rightarrow> string" where
  "to_hex n = (if n < 16 then [hex_char n] else to_hex (n div 16) @ [hex_char (n mod 16)])"

declare to_hex.simps [simp del]

definition encode_quantity :: "nat \<Rightarrow> bytes" where
  "encode_quantity n = quote_char # ''0x'' @ to_hex n @ [quote_char]"

lemma hex_digit_hex_char: "d < 16 \<Longrightarrow> hex_digit (hex_char d) = Some d"
  by (auto simp: hex_digit.simps hex_char_def Let_def)

lemma to_hex_digits: "\<forall>c\<in>set (to_hex n). is_hex c"
proof (induction n rule: to_hex.induct)
  case (1 n)
  then show ?case by (subst to_hex.simps) (auto simp: is_hex_def hex_digit_hex_char)
qed

lemma to_hex_nonempty: "to_hex n \<noteq> []"
  by (subst to_hex.simps) simp

lemma hex_value_to_hex: "hex_value (to_hex n) = n"
proof (induction n rule: to_hex.induct)
  case (1 n)
  then show ?case
    by (subst to_hex.simps) (auto simp: hex_value_def hex_digit_hex_char)
qed

section \<open>Properties\<close>

text \<open>
  C39. Every block number below \<open>2^63\<close>, encoded as JSON-RPC prescribes, is read back.
\<close>

theorem block_number_roundtrip:
  assumes "n < 2 ^ 63"
  shows "parseBlockNumber (encode_quantity n) = Inr (int n)"
proof -
  have "int64 (int n)" using assms by (simp add: int64_def)
  then have "wrap64 (int n) = int n" by (rule wrap64_id)
  with parse_quoted_hex [OF to_hex_nonempty to_hex_digits, of n] show ?thesis
    by (simp add: encode_quantity_def hex_value_to_hex)
qed

theorem block_number_roundtrip_witness:
  "parseBlockNumber (quote_char # ''0x12a05f2'' @ [quote_char]) = Inr 19531250"
proof -
  have "encode_quantity 19531250 = quote_char # ''0x12a05f2'' @ [quote_char]"
    by (simp add: encode_quantity_def to_hex.simps hex_char_def char_of_eq_iff)
  with block_number_roundtrip [of 19531250] show ?thesis by simp
qed

text \<open>
  Hexadecimal digits of either case and any number are read modulo \<open>2^64\<close> into a
  signed height: nothing rejects a value of \<open>2^63\<close> or more, which becomes negative or small.
\<close>

lemma block_number_wraps:
  assumes "s \<noteq> []" and "\<forall>c\<in>set s. is_hex c"
  shows "parseBlockNumber (quote_char # ''0x'' @ s @ [quote_char]) = Inr (wrap64 (int (hex_value s)))
    \<and> (2 ^ 63 \<le> hex_value s \<and> hex_value s < 2 ^ 64 \<longrightarrow> wrap64 (int (hex_value s)) < 0)"
  using parse_quoted_hex [OF assms] by (auto simp: wrap64_high)

lemma block_number_wraps_witness:
  "parseBlockNumber (quote_char # ''0x'' @ ''8000000000000001'' @ [quote_char]) =
     Inr (- 9223372036854775807)"
proof -
  have "hex_value ''8000000000000001'' = 9223372036854775809"
    by (simp add: hex_value_def hex_digit.simps)
  moreover have "\<forall>c\<in>set ''8000000000000001''. is_hex c"
    by (simp add: is_hex_def hex_digit.simps)
  ultimately show ?thesis
    using block_number_wraps [of "''8000000000000001''"] by (simp add: wrap64_def)
qed

text \<open>
  The decimal fallback never reads a decimal number: one without a sign is taken as
  hexadecimal digits, and where the fallback does return a height the input starts with a
  sign.
\<close>

lemma decimal_fallback:
  "(raw \<noteq> [] \<and> (\<forall>c\<in>set raw. dec_digit c \<noteq> None) \<longrightarrow>
      parseBlockNumber raw = Inr (wrap64 (int (hex_value raw)))) \<and>
   (\<not> (\<forall>c\<in>set (trim_prefix ''0x'' (trim_quotes raw)). is_hex c) \<and> parseBlockNumber raw = Inr v \<longrightarrow>
      hd raw = CHR ''-'' \<or> hd raw = CHR ''+'')"
proof (intro conjI impI)
  assume raw: "raw \<noteq> [] \<and> (\<forall>c\<in>set raw. dec_digit c \<noteq> None)"
  then have hex: "\<forall>c\<in>set raw. is_hex c" using dec_digit_hex by blast
  then have "trim_prefix ''0x'' (trim_quotes raw) = raw"
    using trim_quotes_none [OF hex_no_quote [OF hex]] trim_prefix_hex [OF hex] by simp
  with raw hex show "parseBlockNumber raw = Inr (wrap64 (int (hex_value raw)))"
    by (intro parse_hex_core) simp_all
next
  let ?s = "trim_prefix ''0x'' (trim_quotes raw)"
  assume *: "\<not> (\<forall>c\<in>set ?s. is_hex c) \<and> parseBlockNumber raw = Inr v"
  then have "decode_hex ?s = None" and "decode_hex (CHR ''0'' # ?s) = None" and "?s \<noteq> []"
    using decode_hex_is_hex by (cases "decode_hex ?s"; cases "decode_hex (CHR ''0'' # ?s)"; force)+
  with * have int: "ParseInt raw = Inr v"
    by (auto simp: parseBlockNumber_def Let_def split: if_splits)
  show "hd raw = CHR ''-'' \<or> hd raw = CHR ''+''"
  proof (rule ccontr)
    assume "\<not> ?thesis"
    with ParseInt_unsigned [OF int] have hex: "\<forall>c\<in>set raw. is_hex c" by simp
    with * trim_quotes_none [OF hex_no_quote [OF hex]] trim_prefix_hex [OF hex] show False by simp
  qed
qed

end
