(* ===== verification/HealthCheck.thy ===== *)
theory HealthCheck
  imports Chain BlockNumber
begin

text \<open>
  \<open>internal/chain/health.go\<close>: one check of an endpoint, one round over all endpoints of a
  chain, and the loop that repeats it. The goroutines of a round each work on their own
  endpoint; the order in which their results arrive on the channel and the order in which
  the map of heights is ranged over are arguments (\<open>rd_arrival\<close>, \<open>rd_iter\<close>).
\<close>

section \<open>One endpoint\<close>

definition block_request :: RPCRequest where
  "block_request = \<lparr>rq_JSONRPC = ''2.0'', rq_Method = ''eth_blockNumber'', rq_Params = [],
     rq_ID = JNumber 1\<rparr>"

definition checkEndpoint ::
  "(RPCRequest \<Rightarrow> go_error + bytes) \<Rightarrow> (bytes \<Rightarrow> go_error + RPCResponse) \<Rightarrow>
     'tls Endpoint \<Rightarrow> (bytes \<Rightarrow> http_result) \<Rightarrow> (int \<times> bool) \<times> 'tls Endpoint" where
  "checkEndpoint marshal unmarshal ep http =
     (case Call marshal unmarshal ep block_request http of
        (Inl err, ep') \<Rightarrow> ((0, False), ep')
      | (Inr resp, ep') \<Rightarrow>
          (if rs_Error resp \<noteq> None then ((0, False), ep')
           else case parseBlockNumber (rs_Result resp) of
               Inl err \<Rightarrow> ((0, False), ep')
             | Inr height \<Rightarrow> ((height, True), ep')))"

section \<open>One round\<close>

record round =
  rd_http :: "nat \<Rightarrow> bytes \<Rightarrow> http_result"
  rd_arrival :: "nat list"
  rd_iter :: "nat list"

text \<open>The loop over the results channel: the map of heights and the maximum so far.\<close>

fun collect_loop ::
  "(nat \<times> int \<times> bool) list \<Rightarrow> (nat \<rightharpoonup> int) \<Rightarrow> int \<Rightarrow> (nat \<rightharpoonup> int) \<times> int" where
  "collect_loop [] heights maxHeight = (heights, maxHeight)"
| "collect_loop ((ep, height, ok) # rs) heights maxHeight =
     collect_loop rs (heights(ep \<mapsto> height)) (if maxHeight < height then height else maxHeight)"

text \<open>The loop over the map of heights.\<close>

definition judge :: "int \<Rightarrow> int \<Rightarrow> int \<Rightarrow> 'tls Endpoint \<Rightarrow> 'tls Endpoint" where
  "judge maxLag maxHeight height ep =
     (if height = 0 then SetHealthy False ep
      else
        let lag = wrap64 (maxHeight - height)
        in SetBlockHeight height
             (if maxLag < lag then SetHealthy False ep else SetHealthy True ep))"

fun apply_loop ::
  "int \<Rightarrow> int \<Rightarrow> (nat \<rightharpoonup> int) \<Rightarrow> nat list \<Rightarrow> 'tls Endpoint list \<Rightarrow> 'tls Endpoint list" where
  "apply_loop maxLag maxHeight heights [] eps = eps"
| "apply_loop maxLag maxHeight heights (ep # is) eps =
     (case heights ep of
        None \<Rightarrow> apply_loop maxLag maxHeight heights is eps
      | Some height \<Rightarrow>
          apply_loop maxLag maxHeight heights is
            (eps[ep := judge maxLag maxHeight height (eps ! ep)]))"

definition checkAll ::
  "(RPCRequest \<Rightarrow> go_error + bytes) \<Rightarrow> (bytes \<Rightarrow> go_error + RPCResponse) \<Rightarrow>
     round \<Rightarrow> 'tls Chain \<Rightarrow> 'tls Chain" where
  "checkAll marshal unmarshal rd c =
     (let checks = map (\<lambda>i. checkEndpoint marshal unmarshal (endpoints c ! i) (rd_http rd i))
            [0..<length (endpoints c)];
          (heights, maxHeight) =
            collect_loop (map (\<lambda>i. (i, fst (checks ! i))) (rd_arrival rd)) Map.empty 0;
          eps = apply_loop (maxBlockLag (healthChecker c)) maxHeight heights (rd_iter rd)
            (map snd checks)
      in UpdateHighestBlock maxHeight (c\<lparr>endpoints := eps\<rparr>))"

section \<open>The loop\<close>

text \<open>
  After a first round \<open>run\<close> creates a ticker, which panics for an interval that is not
  positive, and then waits for the next tick or for the context to end.
\<close>

datatype hk_event = Done | Tick round

fun run_loop ::
  "(RPCRequest \<Rightarrow> go_error + bytes) \<Rightarrow> (bytes \<Rightarrow> go_error + RPCResponse) \<Rightarrow>
     hk_event list \<Rightarrow> 'tls Chain \<Rightarrow> 'tls Chain" where
  "run_loop marshal unmarshal [] c = c"
| "run_loop marshal unmarshal (Done # es) c = c"
| "run_loop marshal unmarshal (Tick rd # es) c =
     run_loop marshal unmarshal es (checkAll marshal unmarshal rd c)"

definition run ::
  "(RPCRequest \<Rightarrow> go_error + bytes) \<Rightarrow> (bytes \<Rightarrow> go_error + RPCResponse) \<Rightarrow>
     round \<Rightarrow> hk_event list \<Rightarrow> 'tls Chain \<Rightarrow> 'tls Chain outcome" where
  "run marshal unmarshal rd es c =
     (let c1 = checkAll marshal unmarshal rd c
      in if hc_Interval (hk_cfg (healthChecker c)) \<le> 0
         then Panic ''non-positive interval for NewTicker''
         else Return (run_loop marshal unmarshal es c1))"

section \<open>What a round computes\<close>

definition height_of ::
  "(RPCRequest \<Rightarrow> go_error + bytes) \<Rightarrow> (bytes \<Rightarrow> go_error + RPCResponse) \<Rightarrow>
     round \<Rightarrow> 'tls Chain \<Rightarrow> nat \<Rightarrow> int" where
  "height_of marshal unmarshal rd c i =
     fst (fst (checkEndpoint marshal unmarshal (endpoints c ! i) (rd_http rd i)))"

text \<open>\<open>answered\<close>: the endpoint returned a result that \<open>parseBlockNumber\<close> accepts.\<close>

definition answered ::
  "(RPCRequest \<Rightarrow> go_error + bytes) \<Rightarrow> (bytes \<Rightarrow> go_error + RPCResponse) \<Rightarrow>
     round \<Rightarrow> 'tls Chain \<Rightarrow> nat \<Rightarrow> bool" where
  "answered marshal unmarshal rd c i =
     snd (fst (checkEndpoint marshal unmarshal (endpoints c ! i) (rd_http rd i)))"

lemma not_answered: "\<not> answered m u rd c i \<Longrightarrow> height_of m u rd c i = 0"
  by (auto simp: answered_def height_of_def checkEndpoint_def split: prod.splits sum.splits if_splits)

definition max_height :: "int list \<Rightarrow> int" where
  "max_height hs = Max (insert 0 (set hs))"

definition fair_round :: "nat \<Rightarrow> round \<Rightarrow> bool" where
  "fair_round n rd \<longleftrightarrow> distinct (rd_arrival rd) \<and> set (rd_arrival rd) = {..<n} \<and>
     distinct (rd_iter rd) \<and> set (rd_iter rd) = {..<n}"

lemma collect_loop_heights:
  "fst (collect_loop (map (\<lambda>i. (i, f i)) is) m mx) =
     (\<lambda>j. if j \<in> set is then Some (fst (f j)) else m j)"
proof (induction "is" arbitrary: m mx)
  case (Cons i "is")
  then show ?case by (cases "f i") auto
qed simp

lemma collect_loop_max:
  "snd (collect_loop (map (\<lambda>i. (i, f i)) is) m mx) = Max (insert mx ((\<lambda>i. fst (f i)) ` set is))"
proof (induction "is" arbitrary: m mx)
  case (Cons i "is")
  have "Max (insert (max mx h) A) = Max (insert mx (insert h A))" if "finite A" for h and A :: "int set"
    using that by (cases "A = {}") (simp_all add: max.assoc)
  moreover have "(if mx < h then h else mx) = max mx h" for h by simp
  ultimately show ?case using Cons by (cases "f i") simp
qed simp

lemma apply_loop_nth:
  assumes "distinct is" and "j < length eps"
  shows "apply_loop lag mx hs is eps ! j =
    (if j \<in> set is then (case hs j of None \<Rightarrow> eps ! j | Some h \<Rightarrow> judge lag mx h (eps ! j))
     else eps ! j)"
  using assms
proof (induction "is" arbitrary: eps)
  case (Cons i "is")
  then show ?case by (cases "hs i") (auto simp: nth_update_if split: option.split)
qed simp

lemma length_apply_loop [simp]: "length (apply_loop lag mx hs is eps) = length eps"
  by (induction "is" arbitrary: eps) (auto split: option.split)

lemma snd_checkEndpoint [simp]: "snd (checkEndpoint m u ep http) = snd (Call m u ep block_request http)"
  by (simp add: checkEndpoint_def split: prod.split sum.split)

lemma checkAll_chain [simp]:
  "length (endpoints (checkAll m u rd c)) = length (endpoints c)"
  "loadBalancer (checkAll m u rd c) = loadBalancer c"
  "healthChecker (checkAll m u rd c) = healthChecker c"
  "ch_Name (checkAll m u rd c) = ch_Name c"
  by (simp_all add: checkAll_def UpdateHighestBlock_def Let_def split_def)

lemma checkAll_max:
  assumes "fair_round (length (endpoints c)) rd"
  shows "highestBlock (checkAll m u rd c) =
    max_height (map (height_of m u rd c) [0..<length (endpoints c)])"
proof -
  have "(\<lambda>i. fst (fst (map (\<lambda>i. checkEndpoint m u (endpoints c ! i) (rd_http rd i))
            [0..<length (endpoints c)] ! i))) ` {..<length (endpoints c)} =
      height_of m u rd c ` {..<length (endpoints c)}"
    by (rule image_cong) (simp_all add: height_of_def)
  with assms show ?thesis
    by (simp add: checkAll_def UpdateHighestBlock_def Let_def split_def collect_loop_max
        fair_round_def max_height_def atLeast0LessThan)
qed

lemma checkAll_endpoint:
  assumes "fair_round (length (endpoints c)) rd" and "i < length (endpoints c)"
  shows "endpoints (checkAll m u rd c) ! i =
    judge (maxBlockLag (healthChecker c)) (highestBlock (checkAll m u rd c))
      (height_of m u rd c i) (snd (checkEndpoint m u (endpoints c ! i) (rd_http rd i)))"
  using assms
  by (simp add: checkAll_def UpdateHighestBlock_def Let_def split_def collect_loop_heights
      fair_round_def apply_loop_nth height_of_def)

lemma judge_healthy:
  "healthy (judge lag mx h ep) = (h \<noteq> 0 \<and> wrap64 (mx - h) \<le> lag)"
  by (auto simp: judge_def SetHealthy_def SetBlockHeight_def Let_def)

lemma judge_height: "blockHeight (judge lag mx h ep) = (if h = 0 then blockHeight ep else h)"
  by (simp add: judge_def SetHealthy_def SetBlockHeight_def Let_def)

lemma judge_Weight [simp]: "Weight (judge lag mx h ep) = Weight ep"
  by (simp add: judge_def SetHealthy_def SetBlockHeight_def Let_def)

lemma max_height_ge: "h \<in> set hs \<Longrightarrow> h \<le> max_height hs" "0 \<le> max_height hs"
  by (simp_all add: max_height_def)

lemma max_height_in: "max_height hs = 0 \<or> max_height hs \<in> set hs"
  unfolding max_height_def using Max_in [of "insert 0 (set hs)"] by auto

lemma max_height_less: "\<forall>h\<in>set hs. h < b \<Longrightarrow> 0 < b \<Longrightarrow> max_height hs < b"
  by (simp add: max_height_def)

lemma chain_ok_checkAll:
  assumes "chain_ok c" and "fair_round (length (endpoints c)) rd"
  shows "chain_ok (checkAll m u rd c)"
proof -
  have "map Weight (endpoints (checkAll m u rd c)) = map Weight (endpoints c)"
    using assms(2) by (intro nth_equalityI) (simp_all add: checkAll_endpoint)
  with assms(1) show ?thesis by (simp add: chain_ok_def)
qed

lemma chain_ok_run_loop:
  assumes "chain_ok c" and "\<forall>rd. Tick rd \<in> set es \<longrightarrow> fair_round (length (endpoints c)) rd"
  shows "chain_ok (run_loop m u es c) \<and>
    length (endpoints (run_loop m u es c)) = length (endpoints c)"
  using assms
proof (induction m u es c rule: run_loop.induct)
  case (3 m u rd es c)
  then show ?case using chain_ok_checkAll [of c rd m u] by simp
qed simp_all

text \<open>A codec for the witnesses: the body of the response is the result itself.\<close>

definition raw_result :: "bytes \<Rightarrow> go_error + RPCResponse" where
  "raw_result body = Inr \<lparr>rs_JSONRPC = ''2.0'', rs_Result = body, rs_Error = None, rs_ID = JNumber 1\<rparr>"

definition sample_round :: "(nat \<Rightarrow> http_result) \<Rightarrow> round" where
  "sample_round answer = \<lparr>rd_http = (\<lambda>i _. answer i), rd_arrival = [1, 0], rd_iter = [0, 1]\<rparr>"

lemma fair_sample_round [simp]: "fair_round (length (endpoints sample_chain)) (sample_round answer)"
  by (auto simp: fair_round_def sample_round_def sample_chain_simps)

lemma height_sample_round:
  assumes "answer i = Response 200 body d" and "parseBlockNumber body = Inr h"
  shows "height_of (\<lambda>_. Inr []) raw_result (sample_round answer) c i = h"
  using assms
  by (simp add: height_of_def checkEndpoint_def Call_def sample_round_def raw_result_def
      decode_response_def Let_def)

lemma sample_lag: "maxBlockLag (healthChecker sample_chain) = 0"
  by (simp add: sample_chain_def NewChain_def NewChainWithOptions_def sample_config_def
      NewHealthChecker_def Let_def)

lemma less_2_cases: "i < (2::nat) \<Longrightarrow> i = 0 \<or> i = Suc 0"
  by auto

section \<open>Properties\<close>

text \<open>
  C4. After a round whose heights lie in \<open>[0, 2^63)\<close>, an endpoint is healthy exactly when it
  answered, its height is not 0, and it is at most \<open>max_block_lag\<close> behind the highest one; it
  then shows that height. So an endpoint that answers \<open>0x0\<close> is judged like one that does not
  answer, even when 0 is the highest height and any lag is allowed. If any endpoint answered
  with another height (and the lag allowed is not negative) one is healthy. The chain's
  highest block is the maximum of this round alone: when no endpoint answers it falls back
  to 0, though the metric calls it the highest known height.
\<close>

theorem round_classifies:
  assumes "fair_round (length (endpoints c)) rd"
    and "\<forall>i < length (endpoints c). 0 \<le> height_of m u rd c i \<and> height_of m u rd c i < 2 ^ 63"
  shows "(\<forall>i < length (endpoints c).
      let e = endpoints (checkAll m u rd c) ! i; h = height_of m u rd c i;
          mx = highestBlock (checkAll m u rd c)
      in h \<le> mx \<and>
         (healthy e \<longleftrightarrow> answered m u rd c i \<and> h \<noteq> 0 \<and> mx - h \<le> maxBlockLag (healthChecker c)) \<and>
         blockHeight e = (if h = 0 then blockHeight (endpoints c ! i) else h)) \<and>
    ((\<exists>i < length (endpoints c). height_of m u rd c i \<noteq> 0) \<and> 0 \<le> maxBlockLag (healthChecker c) \<longrightarrow>
       (\<exists>i < length (endpoints c). healthy (endpoints (checkAll m u rd c) ! i))) \<and>
    ((\<forall>i < length (endpoints c). height_of m u rd c i = 0) \<longrightarrow>
       highestBlock (checkAll m u rd c) = 0)"
proof -
  let ?n = "length (endpoints c)" and ?h = "height_of m u rd c"
    and ?mx = "highestBlock (checkAll m u rd c)" and ?lag = "maxBlockLag (healthChecker c)"
  note mx = checkAll_max [OF assms(1), of m u]
  have le: "?h i \<le> ?mx" if "i < ?n" for i
    using that mx max_height_ge(1) [of "?h i" "map ?h [0..<?n]"] by simp
  have lt: "?mx < 2 ^ 63"
    unfolding mx using assms(2) by (intro max_height_less) auto
  have sub: "wrap64 (?mx - ?h i) = ?mx - ?h i" if "i < ?n" for i
  proof -
    have "0 \<le> ?h i" using assms(2) that by blast
    with le [OF that] lt show ?thesis by (intro wrap64_id) (simp add: int64_def)
  qed
  have h: "healthy (endpoints (checkAll m u rd c) ! i) \<longleftrightarrow> ?h i \<noteq> 0 \<and> ?mx - ?h i \<le> ?lag"
    if "i < ?n" for i
    using that sub by (simp add: checkAll_endpoint [OF assms(1)] judge_healthy)
  have b: "blockHeight (endpoints (checkAll m u rd c) ! i) =
      (if ?h i = 0 then blockHeight (endpoints c ! i) else ?h i)" if "i < ?n" for i
    using that by (simp add: checkAll_endpoint [OF assms(1)] judge_height)
  have "\<exists>i < ?n. healthy (endpoints (checkAll m u rd c) ! i)"
    if "i < ?n" and "?h i \<noteq> 0" and "0 \<le> ?lag" for i
  proof -
    have "0 < ?mx" using le [OF that(1)] assms(2) that by fastforce
    then obtain j where "j < ?n" "?h j = ?mx"
      using max_height_in [of "map ?h [0..<?n]"] mx by auto
    with h [of j] \<open>0 < ?mx\<close> that(3) show ?thesis by auto
  qed
  moreover have "?mx = 0" if "\<forall>i < ?n. ?h i = 0"
    using that max_height_in [of "map ?h [0..<?n]"] mx by auto
  moreover have "healthy (endpoints (checkAll m u rd c) ! i) \<longleftrightarrow>
      answered m u rd c i \<and> ?h i \<noteq> 0 \<and> ?mx - ?h i \<le> ?lag" if "i < ?n" for i
    using h [OF that] not_answered by blast
  ultimately show ?thesis using le b by (auto simp: Let_def)
qed

theorem round_classifies_witness:
  "let c' = checkAll (\<lambda>_. Inr []) raw_result
      (sample_round (\<lambda>i. if i = 0 then Response 200 ''0x10'' 1 else Response 200 ''0x11'' 1)) sample_chain;
     z = checkAll (\<lambda>_. Inr []) raw_result (sample_round (\<lambda>_. Response 200 ''0x0'' 1)) sample_chain
   in \<not> healthy (endpoints c' ! 0) \<and> healthy (endpoints c' ! Suc 0) \<and>
      highestBlock z = 0 \<and> \<not> healthy (endpoints z ! 0)"
proof -
  let ?z = "height_of (\<lambda>_. Inr []) raw_result (sample_round (\<lambda>_. Response 200 ''0x0'' 1)) sample_chain"
  have "parseBlockNumber ''0x0'' = Inr 0"
    by (simp add: parseBlockNumber_def trim_quotes_def trim_prefix_def quote_char_def
        hex_digit.simps push_bit_eq_mult)
  then have z: "?z i = 0" for i by (simp add: height_sample_round [where d = 1])
  then have "\<forall>i < length (endpoints sample_chain). 0 \<le> ?z i \<and> ?z i < 2 ^ 63" by simp
  note zero = round_classifies [OF fair_sample_round this]
  let ?a = "\<lambda>i::nat. if i = 0 then Response 200 ''0x10'' 1 else Response 200 ''0x11'' 1"
  let ?h = "height_of (\<lambda>_. Inr []) raw_result (sample_round ?a) sample_chain"
  have "parseBlockNumber ''0x10'' = Inr 16" "parseBlockNumber ''0x11'' = Inr 17"
    by (simp_all add: parseBlockNumber_def trim_quotes_def trim_prefix_def quote_char_def
        hex_digit.simps push_bit_eq_mult)
  then have h: "?h 0 = 16" "?h (Suc 0) = 17"
    by (simp_all add: height_sample_round [where d = 1])
  then have r: "\<forall>i < length (endpoints sample_chain). 0 \<le> ?h i \<and> ?h i < 2 ^ 63"
    by (auto simp: sample_chain_simps dest!: less_2_cases)
  have mx: "highestBlock (checkAll (\<lambda>_. Inr []) raw_result (sample_round ?a) sample_chain) = 17"
    unfolding checkAll_max [OF fair_sample_round] using h
    by (simp add: sample_chain_simps max_height_def numeral_2_eq_2)
  have a: "answered (\<lambda>_. Inr []) raw_result (sample_round ?a) sample_chain (Suc 0)"
    using h not_answered by fastforce
  have "highestBlock (checkAll (\<lambda>_. Inr []) raw_result (sample_round (\<lambda>_. Response 200 ''0x0'' 1)) sample_chain) = 0"
    using zero [THEN conjunct2, THEN conjunct2] z by blast
  moreover from zero [THEN conjunct1]
  have "\<not> healthy (endpoints (checkAll (\<lambda>_. Inr []) raw_result
      (sample_round (\<lambda>_. Response 200 ''0x0'' 1)) sample_chain) ! 0)"
    by (simp add: z Let_def sample_chain_simps)
  ultimately show ?thesis
    using round_classifies [OF fair_sample_round r, THEN conjunct1] h a
    by (simp add: Let_def mx sample_lag sample_chain_simps)
qed

text \<open>
  C20. The outcome of a round depends neither on the order in which the results arrive nor
  on the order in which Go ranges over the map of heights.
\<close>

theorem round_order_irrelevant:
  assumes "fair_round (length (endpoints c)) rd" and "fair_round (length (endpoints c)) rd'"
    and "rd_http rd = rd_http rd'"
  shows "checkAll m u rd c = checkAll m u rd' c"
proof -
  have h: "height_of m u rd c = height_of m u rd' c"
    by (rule ext) (simp add: height_of_def assms(3))
  have mx: "highestBlock (checkAll m u rd c) = highestBlock (checkAll m u rd' c)"
    using checkAll_max [OF assms(1)] checkAll_max [OF assms(2)] h by simp
  have "endpoints (checkAll m u rd c) = endpoints (checkAll m u rd' c)"
    using assms h mx by (intro nth_equalityI) (simp_all add: checkAll_endpoint)
  with mx show ?thesis
    by (simp add: checkAll_def UpdateHighestBlock_def Let_def split_def)
qed

theorem round_order_irrelevant_witness:
  "checkAll (\<lambda>_. Inr []) raw_result (sample_round (\<lambda>_. Response 200 ''0x5'' 1)) sample_chain =
   checkAll (\<lambda>_. Inr []) raw_result
     \<lparr>rd_http = (\<lambda>_ _. Response 200 ''0x5'' 1), rd_arrival = [0, 1], rd_iter = [1, 0]\<rparr> sample_chain"
proof (rule round_order_irrelevant [OF fair_sample_round])
  show "fair_round (length (endpoints sample_chain))
     \<lparr>rd_http = (\<lambda>_ _. Response 200 ''0x5'' 1), rd_arrival = [0, 1], rd_iter = [1, 0]\<rparr>"
    by (auto simp: fair_round_def sample_chain_simps)
qed (simp add: sample_round_def)



text \<open>
  The checker's goroutine panics after its first round when the interval is not
  positive, which ends the process; otherwise it runs for as many rounds as it is given
  and keeps the chain's balancer consistent with its endpoints.
\<close>

lemma checker_runs_or_panics:
  assumes "chain_ok c" and "fair_round (length (endpoints c)) rd"
    and "\<forall>rd'. Tick rd' \<in> set es \<longrightarrow> fair_round (length (endpoints c)) rd'"
  shows "(hc_Interval (hk_cfg (healthChecker c)) \<le> 0 \<longrightarrow>
      run m u rd es c = Panic ''non-positive interval for NewTicker'') \<and>
    (0 < hc_Interval (hk_cfg (healthChecker c)) \<longrightarrow>
      (\<exists>c'. run m u rd es c = Return c' \<and> chain_ok c' \<and>
         length (endpoints c') = length (endpoints c)))"
  using chain_ok_run_loop [of "checkAll m u rd c" es m u] chain_ok_checkAll [OF assms(1,2)] assms(3)
  by (auto simp: run_def Let_def)

lemma checker_runs_or_panics_witness:
  "run (\<lambda>_. Inr []) raw_result (sample_round (\<lambda>_. Response 200 ''0x5'' 1)) [] sample_chain =
     Panic ''non-positive interval for NewTicker''"
proof -
  have "hc_Interval (hk_cfg (healthChecker sample_chain)) = 0"
    by (simp add: sample_chain_def NewChain_def NewChainWithOptions_def sample_config_def
        NewHealthChecker_def Let_def)
  then show ?thesis
    using checker_runs_or_panics [OF sample_chain_ok fair_sample_round, of "[]"] by simp
qed

end
