(* ===== verification/ClientTLS.thy ===== *)
theory ClientTLS
  imports Config
begin

text \<open>
  \<open>internal/tls/client.go\<close>: the TLS configuration for the backend connections. Files,
  certificate parsing and key loading are the environment: \<open>readFile\<close> (\<open>os.ReadFile\<close>),
  \<open>pool_of_pem\<close> (\<open>AppendCertsFromPEM\<close>: \<open>None\<close> when no certificate was parsed) and
  \<open>loadPair\<close> (\<open>tls.LoadX509KeyPair\<close>).
\<close>

definition VersionTLS12 :: int where
  "VersionTLS12 = 0x0303"

record ('pool, 'cert) tls_config =
  InsecureSkipVerify :: bool
  MinVersion :: int
  RootCAs :: "'pool option"
  Certificates :: "'cert list"

definition NewClientTLSConfig ::
  "(string \<Rightarrow> go_error + bytes) \<Rightarrow> (bytes \<Rightarrow> 'pool option) \<Rightarrow>
     (string \<Rightarrow> string \<Rightarrow> go_error + 'cert) \<Rightarrow> ClientTLSConfig \<Rightarrow>
     go_error + ('pool, 'cert) tls_config option" where
  "NewClientTLSConfig readFile pool_of_pem loadPair cfg =
     (if \<not> ctls_Enabled cfg then Inr None
      else
        let t0 = \<lparr>InsecureSkipVerify = ctls_InsecureSkipVerify cfg, MinVersion = VersionTLS12,
                  RootCAs = None, Certificates = []\<rparr>
        in case (if ctls_CAFile cfg \<noteq> [] then
                   (case readFile (ctls_CAFile cfg) of
                      Inl err \<Rightarrow> Inl (ErrWrap (''failed to read CA file '' @ ctls_CAFile cfg) err)
                    | Inr pem \<Rightarrow>
                        (case pool_of_pem pem of
                           None \<Rightarrow> Inl (ErrNew (''failed to parse CA certificate from '' @ ctls_CAFile cfg))
                         | Some pool \<Rightarrow> Inr (t0\<lparr>RootCAs := Some pool\<rparr>)))
                 else Inr t0) of
             Inl err \<Rightarrow> Inl err
           | Inr t1 \<Rightarrow>
               (if ctls_CertFile cfg \<noteq> [] \<and> ctls_KeyFile cfg \<noteq> [] then
                  (case loadPair (ctls_CertFile cfg) (ctls_KeyFile cfg) of
                     Inl err \<Rightarrow> Inl (ErrWrap ''failed to load client certificate'' err)
                   | Inr cert \<Rightarrow> Inr (Some (t1\<lparr>Certificates := [cert]\<rparr>)))
                else Inr (Some t1)))"

section \<open>Properties\<close>

text \<open>
  A configuration that is produced requires at least TLS 1.2, skips verification only
  when asked to, trusts exactly the configured CA file (the system roots when none is
  given) and presents a certificate exactly when both its file and its key are given.
\<close>

lemma client_tls_as_configured:
  assumes "NewClientTLSConfig readFile pool_of_pem loadPair cfg = Inr (Some t)"
  shows "ctls_Enabled cfg \<and> MinVersion t = VersionTLS12 \<and>
    InsecureSkipVerify t = ctls_InsecureSkipVerify cfg \<and>
    (RootCAs t = None \<longleftrightarrow> ctls_CAFile cfg = []) \<and>
    (\<forall>pool. RootCAs t = Some pool \<longrightarrow>
       (\<exists>pem. readFile (ctls_CAFile cfg) = Inr pem \<and> pool_of_pem pem = Some pool)) \<and>
    (Certificates t \<noteq> [] \<longleftrightarrow> ctls_CertFile cfg \<noteq> [] \<and> ctls_KeyFile cfg \<noteq> [])"
  using assms
  by (auto simp: NewClientTLSConfig_def Let_def split: if_splits sum.splits option.splits)

end
