(* ===== verification/Sha256.thy ===== *)
theory Sha256
  imports Prelude
begin

text \<open>
  What the cache uses of Go's standard library: \<open>crypto/sha256\<close> (FIPS 180-4) and
  \<open>encoding/hex\<close>. The three \<open>Write\<close> calls of a key hash the concatenation of their
  arguments.
\<close>

unbundle bit_operations_syntax

section \<open>Compression\<close>

type_synonym sha_state =
  "32 word \<times> 32 word \<times> 32 word \<times> 32 word \<times> 32 word \<times> 32 word \<times> 32 word \<times> 32 word"

text \<open>
  The constants are the first 32 bits after the point of the cube roots of the first 64 primes
  and of the square roots of the first 8: \<open>root_digits k n b 0\<close> is the integer part of the \<open>k\<close>-th
  root of \<open>n\<close>, one binary digit at a time.
\<close>

fun root_digits :: "nat \<Rightarrow> int \<Rightarrow> nat \<Rightarrow> int \<Rightarrow> int" where
  "root_digits k n 0 r = r"
| "root_digits k n (Suc b) r = root_digits k n b (if (r + 2 ^ b) ^ k \<le> n then r + 2 ^ b else r)"

definition sha_primes :: "int list" where
  "sha_primes = [n \<leftarrow> [2..311]. list_all (\<lambda>d. n mod d \<noteq> 0) [2..n - 1]]"

definition sha_K :: "32 word list" where
  "sha_K = map (\<lambda>p. word_of_int (root_digits 3 (p * 2 ^ 96) 36 0)) sha_primes"

definition sha_h :: "int \<Rightarrow> 32 word" where
  "sha_h p = word_of_int (root_digits 2 (p * 2 ^ 64) 36 0)"

definition sha_init :: sha_state where
  "sha_init = (sha_h 2, sha_h 3, sha_h 5, sha_h 7, sha_h 11, sha_h 13, sha_h 17, sha_h 19)"

definition sha_sum0 :: "32 word \<Rightarrow> 32 word" where
  "sha_sum0 x = word_rotr 2 x XOR word_rotr 13 x XOR word_rotr 22 x"

definition sha_sum1 :: "32 word \<Rightarrow> 32 word" where
  "sha_sum1 x = word_rotr 6 x XOR word_rotr 11 x XOR word_rotr 25 x"

definition sha_mix0 :: "32 word \<Rightarrow> 32 word" where
  "sha_mix0 x = word_rotr 7 x XOR word_rotr 18 x XOR drop_bit 3 x"

definition sha_mix1 :: "32 word \<Rightarrow> 32 word" where
  "sha_mix1 x = word_rotr 17 x XOR word_rotr 19 x XOR drop_bit 10 x"

fun sha_round :: "32 word \<times> 32 word \<Rightarrow> sha_state \<Rightarrow> sha_state" where
  "sha_round (k, w) (a, b, c, d, e, f, g, h) =
     (let t1 = h + sha_sum1 e + ((e AND f) XOR (NOT e AND g)) + k + w;
          t2 = sha_sum0 a + ((a AND b) XOR (a AND c) XOR (b AND c))
      in (t1 + t2, a, b, c, d + t1, e, f, g))"

fun sha_expand :: "nat \<Rightarrow> 32 word list \<Rightarrow> 32 word list" where
  "sha_expand 0 ws = ws"
| "sha_expand (Suc n) ws =
     (let t = length ws
      in sha_expand n
           (ws @ [sha_mix1 (ws ! (t - 2)) + ws ! (t - 7) + sha_mix0 (ws ! (t - 15)) + ws ! (t - 16)]))"

fun sha_add :: "sha_state \<Rightarrow> sha_state \<Rightarrow> sha_state" where
  "sha_add (a, b, c, d, e, f, g, h) (a', b', c', d', e', f', g', h') =
     (a + a', b + b', c + c', d + d', e + e', f + f', g + g', h + h')"

section \<open>Bytes and words\<close>

definition byte_word :: "char \<Rightarrow> 32 word" where
  "byte_word c = word_of_int (of_char c)"

fun words_of :: "bytes \<Rightarrow> 32 word list" where
  "words_of (a # b # c # d # rest) =
     (push_bit 24 (byte_word a) OR push_bit 16 (byte_word b) OR push_bit 8 (byte_word c) OR byte_word d)
     # words_of rest"
| "words_of _ = []"

definition word_bytes :: "32 word \<Rightarrow> bytes" where
  "word_bytes w = map (\<lambda>k. char_of (uint (drop_bit k w))) [24, 16, 8, 0]"

fun sha_bytes :: "sha_state \<Rightarrow> bytes" where
  "sha_bytes (a, b, c, d, e, f, g, h) = concat (map word_bytes [a, b, c, d, e, f, g, h])"

definition sha_block :: "sha_state \<Rightarrow> bytes \<Rightarrow> sha_state" where
  "sha_block s block = sha_add s (fold sha_round (zip sha_K (sha_expand 48 (words_of block))) s)"

fun sha_blocks :: "sha_state \<Rightarrow> bytes \<Rightarrow> sha_state" where
  "sha_blocks s msg = (if msg = [] then s else sha_blocks (sha_block s (take 64 msg)) (drop 64 msg))"

declare sha_blocks.simps [simp del]

definition sha_pad :: "bytes \<Rightarrow> bytes" where
  "sha_pad msg =
     (let n = length msg
      in msg @ [char_of (128::nat)] @ replicate ((119 - n mod 64) mod 64) (char_of (0::nat)) @
         map (\<lambda>k. char_of (drop_bit k (8 * int n))) [56, 48, 40, 32, 24, 16, 8, 0])"

definition sha256 :: "bytes \<Rightarrow> bytes" where
  "sha256 msg = sha_bytes (sha_blocks sha_init (sha_pad msg))"

section \<open>Hexadecimal\<close>

definition hex_lower :: "nat \<Rightarrow> char" where
  "hex_lower n = (if n < 10 then char_of (48 + n) else char_of (87 + n))"

definition EncodeToString :: "bytes \<Rightarrow> string" where
  "EncodeToString bs =
     concat (map (\<lambda>c. [hex_lower (of_char c div 16), hex_lower (of_char c mod 16)]) bs)"

lemma length_sha256 [simp]: "length (sha256 msg) = 32"
  unfolding sha256_def
  by (cases "sha_blocks sha_init (sha_pad msg)" rule: sha_bytes.cases) (simp add: word_bytes_def)

lemma length_EncodeToString [simp]: "length (EncodeToString bs) = 2 * length bs"
  by (induction bs) (simp_all add: EncodeToString_def)

lemma length_sha_pad: "length (sha_pad msg) mod 64 = 0"
proof -
  have "(n + 9 + (119 - n mod 64) mod 64) mod 64 = 0" for n :: nat
  proof -
    have "n mod 64 < 64" by simp
    then have "n + 9 + (119 - n mod 64) = 64 * (n div 64) + 64 * 2"
      using mult_div_mod_eq [of 64 n] by linarith
    then have "(n + 9 + (119 - n mod 64)) mod 64 = 0" by simp
    then show ?thesis by (simp only: mod_add_right_eq)
  qed
  then show ?thesis by (simp add: sha_pad_def Let_def add.assoc add.commute add.left_commute)
qed

end
