(* ===== verification/Cache.thy ===== *)
theory Cache
  imports Config Sha256
begin

text \<open>
  \<open>internal/cache/cache.go\<close>: the in-memory cache of the HTTP handler and the cache behind a
  Redis client. Keys are SHA-256 digests computed by the model. The Redis client is not part
  of the repository: its operations are arguments, and what the code relies on is the
  predicate \<open>redis_laws\<close>. \<open>ttl_cache\<close> is the contract a cache with expiry gives its user.
\<close>

section \<open>The in-memory cache\<close>

record cacheEntry =
  ce_value :: bytes
  ce_expiresAt :: time

record InMemoryCache =
  mc_data :: "string \<rightharpoonup> cacheEntry"
  mc_ttl :: duration
  mc_methods :: "string \<rightharpoonup> bool"
  mc_enabled :: bool

text \<open>\<open>for _, m := range cacheCfg.CacheableMethods { methods[m] = true }\<close>\<close>

fun methods_loop :: "string list \<Rightarrow> (string \<rightharpoonup> bool) \<Rightarrow> (string \<rightharpoonup> bool)" where
  "methods_loop [] methods = methods"
| "methods_loop (m # ms) methods = methods_loop ms (methods(m \<mapsto> True))"

text \<open>Reading a \<open>map[string]bool\<close>: an absent key is \<open>false\<close>.\<close>

definition method_flag :: "(string \<rightharpoonup> bool) \<Rightarrow> string \<Rightarrow> bool" where
  "method_flag methods method = (case methods method of None \<Rightarrow> False | Some b \<Rightarrow> b)"

definition NewInMemory :: "CacheConfig \<Rightarrow> InMemoryCache" where
  "NewInMemory cacheCfg =
     \<lparr>mc_data = Map.empty, mc_ttl = cch_TTL cacheCfg,
      mc_methods = methods_loop (cch_CacheableMethods cacheCfg) Map.empty,
      mc_enabled = cch_Enabled cacheCfg\<rparr>"

definition mc_IsCacheable :: "InMemoryCache \<Rightarrow> string \<Rightarrow> bool" where
  "mc_IsCacheable c method = (if \<not> mc_enabled c then False else method_flag (mc_methods c) method)"

definition mc_makeKey :: "string \<Rightarrow> string \<Rightarrow> bytes \<Rightarrow> string" where
  "mc_makeKey chain method params = take 32 (EncodeToString (sha256 (chain @ method @ params)))"

text \<open>\<open>now\<close> is the reading of \<open>time.Now()\<close>. An absent entry is deleted too, to no effect.\<close>

definition mc_lookup :: "InMemoryCache \<Rightarrow> time \<Rightarrow> string \<Rightarrow> bytes option \<times> InMemoryCache" where
  "mc_lookup c now key =
     (case mc_data c key of
        None \<Rightarrow> (None, c\<lparr>mc_data := (mc_data c)(key := None)\<rparr>)
      | Some entry \<Rightarrow>
          (if ce_expiresAt entry < now then (None, c\<lparr>mc_data := (mc_data c)(key := None)\<rparr>)
           else (Some (ce_value entry), c)))"

definition mc_Get ::
  "InMemoryCache \<Rightarrow> time \<Rightarrow> string \<Rightarrow> string \<Rightarrow> bytes \<Rightarrow> bytes option \<times> InMemoryCache" where
  "mc_Get c now chain method params =
     (if \<not> mc_enabled c then (None, c) else mc_lookup c now (mc_makeKey chain method params))"

definition mc_store :: "InMemoryCache \<Rightarrow> time \<Rightarrow> string \<Rightarrow> bytes \<Rightarrow> InMemoryCache" where
  "mc_store c now key response =
     c\<lparr>mc_data := (mc_data c)(key \<mapsto> \<lparr>ce_value = response, ce_expiresAt = now + mc_ttl c\<rparr>)\<rparr>"

definition mc_Set ::
  "InMemoryCache \<Rightarrow> time \<Rightarrow> string \<Rightarrow> string \<Rightarrow> bytes \<Rightarrow> bytes \<Rightarrow> InMemoryCache" where
  "mc_Set c now chain method params response =
     (if \<not> mc_enabled c then c else mc_store c now (mc_makeKey chain method params) response)"

definition mc_Enabled :: "InMemoryCache \<Rightarrow> bool" where
  "mc_Enabled c = mc_enabled c"

section \<open>The Redis cache\<close>

record redis_options =
  ro_Addr :: string
  ro_Password :: string
  ro_DB :: int

record 'r Cache =
  rc_client :: "'r option"
  rc_ttl :: duration
  rc_methods :: "string \<rightharpoonup> bool"
  rc_enabled :: bool

definition rc_New ::
  "(redis_options \<Rightarrow> 'r) \<Rightarrow> ('r \<Rightarrow> go_error option) \<Rightarrow> RedisConfig \<Rightarrow> CacheConfig \<Rightarrow>
     go_error + 'r Cache" where
  "rc_New newClient ping cfg cacheCfg =
     (if \<not> cch_Enabled cacheCfg
      then Inr \<lparr>rc_client = None, rc_ttl = 0, rc_methods = Map.empty, rc_enabled = False\<rparr>
      else let client = newClient \<lparr>ro_Addr = redis_Addr cfg, ro_Password = redis_Password cfg,
                                   ro_DB = redis_DB cfg\<rparr>
           in case ping client of
                Some err \<Rightarrow> Inl (ErrWrap ''failed to connect to redis'' err)
              | None \<Rightarrow> Inr \<lparr>rc_client = Some client, rc_ttl = cch_TTL cacheCfg,
                  rc_methods = methods_loop (cch_CacheableMethods cacheCfg) Map.empty,
                  rc_enabled = True\<rparr>)"

definition rc_IsCacheable :: "'r Cache \<Rightarrow> string \<Rightarrow> bool" where
  "rc_IsCacheable c method = (if \<not> rc_enabled c then False else method_flag (rc_methods c) method)"

definition rc_makeKey :: "string \<Rightarrow> string \<Rightarrow> bytes \<Rightarrow> string" where
  "rc_makeKey chain method params =
     ''rpc:'' @ chain @ '':'' @ method @ '':'' @
       take 16 (EncodeToString (sha256 (chain @ method @ params)))"

text \<open>An enabled cache without a client does not arise; using it panics.\<close>

definition rc_Get ::
  "('r \<Rightarrow> string \<Rightarrow> go_error + bytes) \<Rightarrow> 'r Cache \<Rightarrow> string \<Rightarrow> string \<Rightarrow> bytes \<Rightarrow>
     bytes option outcome" where
  "rc_Get rget c chain method params =
     (if \<not> rc_enabled c then Return None
      else case rc_client c of
             None \<Rightarrow> Panic ''nil pointer dereference''
           | Some client \<Rightarrow>
               (case rget client (rc_makeKey chain method params) of
                  Inl err \<Rightarrow> Return None
                | Inr val \<Rightarrow> Return (Some val)))"

definition rc_Set ::
  "('r \<Rightarrow> string \<Rightarrow> bytes \<Rightarrow> duration \<Rightarrow> go_error option \<times> 'r) \<Rightarrow> 'r Cache \<Rightarrow>
     string \<Rightarrow> string \<Rightarrow> bytes \<Rightarrow> bytes \<Rightarrow> (go_error option \<times> 'r Cache) outcome" where
  "rc_Set rset c chain method params response =
     (if \<not> rc_enabled c then Return (None, c)
      else case rc_client c of
             None \<Rightarrow> Panic ''nil pointer dereference''
           | Some client \<Rightarrow>
               (let (err, client') = rset client (rc_makeKey chain method params) response (rc_ttl c)
                in Return (err, c\<lparr>rc_client := Some client'\<rparr>)))"

definition rc_Close :: "('r \<Rightarrow> go_error option \<times> 'r) \<Rightarrow> 'r Cache \<Rightarrow> go_error option \<times> 'r Cache" where
  "rc_Close close c =
     (case rc_client c of
        None \<Rightarrow> (None, c)
      | Some client \<Rightarrow> (let (err, client') = close client in (err, c\<lparr>rc_client := Some client'\<rparr>)))"

definition rc_Enabled :: "'r Cache \<Rightarrow> bool" where
  "rc_Enabled c = rc_enabled c"

section \<open>The contract of a cache with expiry\<close>

text \<open>
  \<open>live c t k\<close> is what the cache holds for \<open>k\<close> at time \<open>t\<close>. A lookup returns it and
  changes no later one; a store determines it for its key alone.
\<close>

datatype 'k cache_op = OpGet time 'k | OpSet time 'k bytes

fun op_time :: "'k cache_op \<Rightarrow> time" where
  "op_time (OpGet t k) = t"
| "op_time (OpSet t k v) = t"

text \<open>Operations are listed newest first; \<open>timed now ops\<close>: the clock did not run backwards.\<close>

fun timed :: "time \<Rightarrow> 'k cache_op list \<Rightarrow> bool" where
  "timed t [] = True"
| "timed t (op # ops) = (op_time op \<le> t \<and> timed (op_time op) ops)"

fun log_live :: "duration \<Rightarrow> 'k cache_op list \<Rightarrow> time \<Rightarrow> 'k \<Rightarrow> bytes option" where
  "log_live d [] t k = None"
| "log_live d (OpGet s k' # ops) t k = log_live d ops t k"
| "log_live d (OpSet s k' v # ops) t k =
     (if k' = k then (if t \<le> s + d then Some v else None) else log_live d ops t k)"

fun cache_step ::
  "('c \<Rightarrow> time \<Rightarrow> 'k \<Rightarrow> bytes option \<times> 'c) \<Rightarrow> ('c \<Rightarrow> time \<Rightarrow> 'k \<Rightarrow> bytes \<Rightarrow> 'c) \<Rightarrow>
     'k cache_op \<Rightarrow> 'c \<Rightarrow> 'c" where
  "cache_step look store (OpGet t k) c = snd (look c t k)"
| "cache_step look store (OpSet t k v) c = store c t k v"

lemma timed_later: "timed s ops \<Longrightarrow> s \<le> t \<Longrightarrow> timed t ops"
  by (cases ops) auto

locale ttl_cache =
  fixes look :: "'c \<Rightarrow> time \<Rightarrow> 'k \<Rightarrow> bytes option \<times> 'c"
    and store :: "'c \<Rightarrow> time \<Rightarrow> 'k \<Rightarrow> bytes \<Rightarrow> 'c"
    and live :: "'c \<Rightarrow> time \<Rightarrow> 'k \<Rightarrow> bytes option"
    and ttl :: "'c \<Rightarrow> duration"
  assumes look_value: "fst (look c t k) = live c t k"
    and look_live: "t \<le> t' \<Longrightarrow> live (snd (look c t k)) t' k' = live c t' k'"
    and store_live: "live (store c t k v) t' k' =
      (if k = k' then (if t' \<le> t + ttl c then Some v else None) else live c t' k')"
    and ttl_look: "ttl (snd (look c t k)) = ttl c"
    and ttl_store: "ttl (store c t k v) = ttl c"
begin

lemma ttl_run: "ttl (foldr (cache_step look store) ops c) = ttl c"
proof (induction ops)
  case (Cons op ops)
  then show ?case by (cases op) (simp_all add: ttl_look ttl_store)
qed simp

lemma run_live:
  assumes "\<forall>t k. live c t k = None" and "timed t ops"
  shows "live (foldr (cache_step look store) ops c) t k = log_live (ttl c) ops t k"
  using assms(2)
proof (induction ops)
  case (Cons op ops)
  then have "timed t ops" using timed_later by fastforce
  then have IH: "live (foldr (cache_step look store) ops c) t k = log_live (ttl c) ops t k"
    by (rule Cons.IH)
  from Cons.prems have "op_time op \<le> t" by simp
  with IH show ?case by (cases op) (simp_all add: look_live store_live ttl_run)
qed (simp add: assms(1))

lemma look_run:
  assumes "\<forall>t k. live c t k = None" and "timed t ops"
  shows "fst (look (foldr (cache_step look store) ops c) t k) = log_live (ttl c) ops t k"
  using run_live [OF assms] by (simp add: look_value)

end

definition mc_live :: "InMemoryCache \<Rightarrow> time \<Rightarrow> string \<Rightarrow> bytes option" where
  "mc_live c t key =
     (case mc_data c key of
        None \<Rightarrow> None
      | Some entry \<Rightarrow> if ce_expiresAt entry < t then None else Some (ce_value entry))"

interpretation mc: ttl_cache mc_lookup mc_store mc_live mc_ttl
proof unfold_locales
  fix c t k t' k' v
  show "fst (mc_lookup c t k) = mc_live c t k"
    by (simp add: mc_lookup_def mc_live_def split: option.split)
  show "mc_live (mc_store c t k v) t' k' =
      (if k = k' then (if t' \<le> t + mc_ttl c then Some v else None) else mc_live c t' k')"
    by (auto simp: mc_store_def mc_live_def)
  show "mc_ttl (snd (mc_lookup c t k)) = mc_ttl c"
    by (simp add: mc_lookup_def split: option.split)
  show "mc_ttl (mc_store c t k v) = mc_ttl c"
    by (simp add: mc_store_def)
next
  fix c k k' and t t' :: time
  assume "t \<le> t'"
  then show "mc_live (snd (mc_lookup c t k)) t' k' = mc_live c t' k'"
    by (auto simp: mc_lookup_def mc_live_def split: option.split)
qed

section \<open>Runs of the cache\<close>

type_synonym cache_query = "string \<times> string \<times> bytes"

fun query_key :: "cache_query \<Rightarrow> string" where
  "query_key (chain, method, params) = mc_makeKey chain method params"

fun mc_step :: "cache_query cache_op \<Rightarrow> InMemoryCache \<Rightarrow> InMemoryCache" where
  "mc_step (OpGet t (chain, method, params)) c = snd (mc_Get c t chain method params)"
| "mc_step (OpSet t (chain, method, params) v) c = mc_Set c t chain method params v"

lemma mc_lookup_enabled [simp]: "mc_enabled (snd (mc_lookup c t k)) = mc_enabled c"
  by (simp add: mc_lookup_def split: option.split)

lemma mc_lookup_methods [simp]: "mc_methods (snd (mc_lookup c t k)) = mc_methods c"
  by (simp add: mc_lookup_def split: option.split)

lemma mc_enabled_updates [simp]:
  "mc_enabled (mc_Set c t chain method params v) = mc_enabled c"
  "mc_enabled (snd (mc_Get c t chain method params)) = mc_enabled c"
  "mc_methods (mc_Set c t chain method params v) = mc_methods c"
  "mc_methods (snd (mc_Get c t chain method params)) = mc_methods c"
  by (simp_all add: mc_Set_def mc_store_def mc_Get_def)

lemma mc_step_key:
  assumes "mc_enabled c"
  shows "mc_step op c = cache_step mc_lookup mc_store (map_cache_op query_key op) c"
proof (cases op)
  case (OpGet t q)
  with assms show ?thesis by (cases q) (simp add: mc_Get_def)
next
  case (OpSet t q v)
  with assms show ?thesis by (cases q) (simp add: mc_Set_def)
qed

lemma mc_step_enabled [simp]: "mc_enabled (mc_step op c) = mc_enabled c"
  by (cases "(op, c)" rule: mc_step.cases) simp_all

lemma mc_run_enabled [simp]: "mc_enabled (foldr mc_step ops c) = mc_enabled c"
  by (induction ops) simp_all

lemma mc_run_key:
  assumes "mc_enabled c"
  shows "foldr mc_step ops c =
    foldr (cache_step mc_lookup mc_store) (map (map_cache_op query_key) ops) c"
proof (induction ops)
  case (Cons op ops)
  have "mc_enabled (foldr mc_step ops c)" using assms by simp
  from mc_step_key [OF this, of op] Cons show ?case by simp
qed simp

lemma timed_map: "timed t (map (map_cache_op f) ops) = timed t ops"
proof (induction ops arbitrary: t)
  case (Cons op ops)
  then show ?case by (cases op) simp_all
qed simp

lemma method_flag_empty [simp]: "method_flag Map.empty m = False"
  by (simp add: method_flag_def)

lemma methods_loop_flag:
  "method_flag (methods_loop ms methods) m = (m \<in> set ms \<or> method_flag methods m)"
  by (induction ms arbitrary: methods) (auto simp: method_flag_def)

lemma mc_IsCacheable_iff:
  "mc_IsCacheable c m = (mc_enabled c \<and> method_flag (mc_methods c) m)"
  by (simp add: mc_IsCacheable_def)

lemma mc_run_disabled:
  assumes "\<not> mc_enabled c"
  shows "foldr mc_step ops c = c"
proof (induction ops)
  case (Cons op ops)
  with assms show ?case by (cases "(op, c)" rule: mc_step.cases) (simp_all add: mc_Get_def mc_Set_def)
qed simp

lemma length_mc_makeKey: "length (mc_makeKey chain method params) = 32"
  by (simp add: mc_makeKey_def)

lemma mc_makeKey_concat:
  "chain @ method @ params = chain' @ method' @ params' \<Longrightarrow>
     mc_makeKey chain method params = mc_makeKey chain' method' params'"
  by (simp add: mc_makeKey_def)

section \<open>Laws of a Redis client\<close>

text \<open>
  What the cache relies on: a value written without error is read back until it expires,
  and writing one key changes no other. Time does not pass between the two calls.
\<close>

definition redis_laws ::
  "('r \<Rightarrow> string \<Rightarrow> go_error + bytes) \<Rightarrow>
     ('r \<Rightarrow> string \<Rightarrow> bytes \<Rightarrow> duration \<Rightarrow> go_error option \<times> 'r) \<Rightarrow> bool" where
  "redis_laws rget rset \<longleftrightarrow>
     (\<forall>r k v d r'. 0 < d \<longrightarrow> rset r k v d = (None, r') \<longrightarrow>
        rget r' k = Inr v \<and> (\<forall>k'. k' \<noteq> k \<longrightarrow> rget r' k' = rget r k'))"

lemma redis_lawsD:
  assumes "redis_laws rget rset" and "0 < d" and "rset r k v d = (None, r')"
  shows "rget r' k = Inr v" and "k' \<noteq> k \<Longrightarrow> rget r' k' = rget r k'"
  using assms unfolding redis_laws_def by blast+

lemma colon_split:
  assumes "a @ CHR '':'' # b = a' @ CHR '':'' # b'"
    and "CHR '':'' \<notin> set a" and "CHR '':'' \<notin> set a'"
  shows "a = a' \<and> b = b'"
  using assms
proof (induction a arbitrary: a')
  case Nil
  then show ?case by (cases a') auto
next
  case (Cons x a)
  then show ?case by (cases a') auto
qed

lemma rc_makeKey_eq:
  assumes "rc_makeKey chain method params = rc_makeKey chain' method' params'"
    and "CHR '':'' \<notin> set chain" and "CHR '':'' \<notin> set chain'"
    and "CHR '':'' \<notin> set method" and "CHR '':'' \<notin> set method'"
  shows "chain = chain' \<and> method = method'"
proof -
  let ?r = "\<lambda>c m p. m @ CHR '':'' # take 16 (EncodeToString (sha256 (c @ m @ p)))"
  from assms(1) have "chain @ CHR '':'' # ?r chain method params =
      chain' @ CHR '':'' # ?r chain' method' params'"
    by (simp add: rc_makeKey_def)
  note outer = colon_split [OF this assms(2,3)]
  note inner = colon_split [OF conjunct2 [OF outer] assms(4,5)]
  show ?thesis using conjunct1 [OF outer] conjunct1 [OF inner] by (rule conjI)
qed

section \<open>Properties\<close>

text \<open>
  C6. The in-memory cache implements its log: after any sequence of \<open>Get\<close> and \<open>Set\<close> calls on a
  clock that does not run backwards, \<open>Get\<close> returns exactly the response last stored under
  the key of its arguments, while that is at most \<open>ttl\<close> old; deleting expired entries and
  lookups of other keys never show.
\<close>

theorem cache_is_log:
  assumes "cch_Enabled cfg" and "timed now ops"
  shows "fst (mc_Get (foldr mc_step ops (NewInMemory cfg)) now chain method params) =
    log_live (cch_TTL cfg) (map (map_cache_op query_key) ops) now (mc_makeKey chain method params)"
proof -
  have e: "mc_enabled (NewInMemory cfg)" using assms(1) by (simp add: NewInMemory_def)
  have "fst (mc_lookup (foldr (cache_step mc_lookup mc_store)
        (map (map_cache_op query_key) ops) (NewInMemory cfg)) now key) =
      log_live (mc_ttl (NewInMemory cfg)) (map (map_cache_op query_key) ops) now key" for key
    by (rule mc.look_run) (simp_all add: mc_live_def NewInMemory_def timed_map assms(2))
  then show ?thesis
    using e mc_run_key [OF e, of ops] mc_run_enabled [of ops "NewInMemory cfg"]
    by (simp add: mc_Get_def) (simp add: NewInMemory_def)
qed

theorem cache_is_log_witness:
  "let c = NewInMemory \<lparr>cch_Enabled = True, cch_TTL = 60, cch_CacheableMethods = [''eth_chainId'']\<rparr>;
       c1 = mc_Set c 100 ''eth'' ''eth_chainId'' ''[]'' ''0x1''
   in fst (mc_Get c1 160 ''eth'' ''eth_chainId'' ''[]'') = Some ''0x1'' \<and>
      fst (mc_Get c1 161 ''eth'' ''eth_chainId'' ''[]'') = None"
  using cache_is_log [of "\<lparr>cch_Enabled = True, cch_TTL = 60, cch_CacheableMethods = [''eth_chainId'']\<rparr>"
      _ "[OpSet 100 (''eth'', ''eth_chainId'', ''[]'') ''0x1'']" "''eth''" "''eth_chainId''" "''[]''"]
  by (simp add: Let_def)

text \<open>
  A disabled cache is inert: nothing is cacheable, nothing is returned and nothing kept,
  whatever is called. An enabled one caches exactly the configured methods, the same as
  \<open>CacheConfig.IsCacheableMethod\<close>.
\<close>

lemma cache_switch:
  "(\<not> cch_Enabled cfg \<longrightarrow>
      (let c = foldr mc_step ops (NewInMemory cfg)
       in c = NewInMemory cfg \<and> \<not> mc_IsCacheable c method \<and>
          fst (mc_Get c now chain method params) = None)) \<and>
   (cch_Enabled cfg \<longrightarrow>
      mc_IsCacheable (NewInMemory cfg) method = IsCacheableMethod cfg method)"
proof -
  have "foldr mc_step ops (NewInMemory cfg) = NewInMemory cfg" if "\<not> cch_Enabled cfg"
    using that by (intro mc_run_disabled) (simp add: NewInMemory_def)
  then show ?thesis
    by (auto simp: Let_def mc_IsCacheable_def mc_Get_def NewInMemory_def methods_loop_flag
        IsCacheableMethod_def has_method_set)
qed

text \<open>
  The key hashes the bare concatenation of chain, method and parameters, so a response stored
  for one chain and method is served for every other split of the same text.
\<close>

lemma cache_key_ambiguous:
  assumes "mc_enabled c" and "0 \<le> mc_ttl c"
    and "chain @ method @ params = chain' @ method' @ params'"
  shows "fst (mc_Get (mc_Set c now chain method params response) now chain' method' params') =
    Some response"
  using assms mc_makeKey_concat [OF assms(3)]
  by (simp add: mc_Get_def mc_Set_def mc_store_def mc_lookup_def)

text \<open>
  The Redis cache returns what was stored, and its keys carry the chain and method in plain
  text: as long as neither holds a colon, no entry of another chain or method is touched or
  returned.
\<close>

lemma redis_cache_separates:
  assumes "redis_laws rget rset" and "0 < rc_ttl c"
    and "rc_Set rset c chain method params response = Return (None, c')" and "rc_enabled c"
    and "CHR '':'' \<notin> set chain \<union> set chain' \<union> set method \<union> set method'"
  shows "rc_Get rget c' chain method params = Return (Some response) \<and>
    ((chain', method') \<noteq> (chain, method) \<longrightarrow>
       rc_Get rget c' chain' method' params' = rc_Get rget c chain' method' params')"
proof -
  from assms(3,4) obtain r r' where r: "rc_client c = Some r"
    and s: "rset r (rc_makeKey chain method params) response (rc_ttl c) = (None, r')"
    and c': "c' = c\<lparr>rc_client := Some r'\<rparr>"
    by (auto simp: rc_Set_def split: option.splits prod.splits)
  note laws = redis_lawsD [OF assms(1,2) s]
  have "rc_makeKey chain' method' params' \<noteq> rc_makeKey chain method params"
    if "(chain', method') \<noteq> (chain, method)"
    using that assms(5) rc_makeKey_eq [of "chain'" "method'" "params'" "chain" "method" "params"] by auto
  with laws show ?thesis using assms(4) r by (auto simp: rc_Get_def c')
qed

definition plain_get :: "(string \<rightharpoonup> bytes) \<Rightarrow> string \<Rightarrow> go_error + bytes" where
  "plain_get r k = (case r k of None \<Rightarrow> Inl (ErrNew ''redis: nil'') | Some v \<Rightarrow> Inr v)"

definition plain_set ::
  "(string \<rightharpoonup> bytes) \<Rightarrow> string \<Rightarrow> bytes \<Rightarrow> duration \<Rightarrow> go_error option \<times> (string \<rightharpoonup> bytes)" where
  "plain_set r k v d = (None, r(k \<mapsto> v))"

lemma redis_cache_separates_witness:
  "let c = \<lparr>rc_client = Some Map.empty, rc_ttl = 60, rc_methods = Map.empty, rc_enabled = True\<rparr>;
       c' = c\<lparr>rc_client := Some (Map.empty(rc_makeKey ''eth'' ''m'' ''[]'' \<mapsto> ''r''))\<rparr>
   in rc_Get plain_get c' ''eth'' ''m'' ''[]'' = Return (Some ''r'') \<and>
      rc_Get plain_get c' ''bsc'' ''m'' ''[]'' = Return None"
proof -
  let ?c = "\<lparr>rc_client = Some Map.empty, rc_ttl = 60, rc_methods = Map.empty, rc_enabled = True\<rparr>"
  let ?c' = "?c\<lparr>rc_client := Some (Map.empty(rc_makeKey ''eth'' ''m'' ''[]'' \<mapsto> ''r''))\<rparr>"
  have "redis_laws plain_get plain_set"
    by (auto simp: redis_laws_def plain_get_def plain_set_def)
  moreover have "rc_Set plain_set ?c ''eth'' ''m'' ''[]'' ''r'' = Return (None, ?c')"
    by (simp add: rc_Set_def plain_set_def)
  ultimately show ?thesis
    using redis_cache_separates [of plain_get plain_set ?c "''eth''" "''m''" "''[]''" "''r''" ?c'
        "''bsc''" "''m''" "''[]''"]
    by (simp add: Let_def) (simp add: rc_Get_def plain_get_def)
qed
end
