(* ===== verification/RateLimit.thy ===== *)
theory RateLimit
  imports Float64 Config
begin

text \<open>
  \<open>internal/ratelimit/ratelimit.go\<close>: the token bucket, the sliding window, their clean-up, the
  combination of a global limiter with one per chain, and the choice by configuration. Each
  operation holds its limiter's mutex, so it is one step; \<open>now\<close> is its reading of the clock.
  \<open>keyed_limiter\<close> is the contract every limiter keeps: a call depends on and changes the state
  of its own key only.
\<close>

section \<open>Token bucket\<close>

record tokenBucket =
  tb_tokens :: float64
  tb_lastCheck :: time

record TokenBucketLimiter =
  tbl_rate :: float64
  tbl_burst :: int
  tbl_buckets :: "string \<rightharpoonup> tokenBucket"
  tbl_cleanupTick :: duration
  tbl_stopped :: bool

definition NewTokenBucketLimiter :: "float64 \<Rightarrow> int \<Rightarrow> TokenBucketLimiter" where
  "NewTokenBucketLimiter rate burst =
     \<lparr>tbl_rate = rate, tbl_burst = burst, tbl_buckets = Map.empty,
      tbl_cleanupTick = 300 * second, tbl_stopped = False\<rparr>"

text \<open>The bucket of a key, a full one when there is none.\<close>

definition tb_bucket :: "int \<Rightarrow> time \<Rightarrow> tokenBucket option \<Rightarrow> tokenBucket" where
  "tb_bucket burst now b =
     (case b of
        None \<Rightarrow> \<lparr>tb_tokens = float64_of_int burst, tb_lastCheck = now\<rparr>
      | Some b \<Rightarrow> b)"

text \<open>Adding the tokens earned since the last call, up to the capacity.\<close>

definition tb_refill :: "float64 \<Rightarrow> int \<Rightarrow> time \<Rightarrow> tokenBucket \<Rightarrow> tokenBucket" where
  "tb_refill rate burst now b =
     (let elapsed = Seconds (time_sub now (tb_lastCheck b));
          tokens = fadd (tb_tokens b) (fmul elapsed rate);
          tokens = (if float64_of_int burst < tokens then float64_of_int burst else tokens)
      in \<lparr>tb_tokens = tokens, tb_lastCheck = now\<rparr>)"

definition tb_take :: "int \<Rightarrow> tokenBucket \<Rightarrow> bool \<times> tokenBucket" where
  "tb_take n b =
     (if float64_of_int n \<le> tb_tokens b
      then (True, b\<lparr>tb_tokens := fsub (tb_tokens b) (float64_of_int n)\<rparr>)
      else (False, b))"

definition tb_AllowN ::
  "TokenBucketLimiter \<Rightarrow> time \<Rightarrow> string \<Rightarrow> int \<Rightarrow> bool \<times> TokenBucketLimiter" where
  "tb_AllowN l now key n =
     (let b = tb_bucket (tbl_burst l) now (tbl_buckets l key);
          (ok, b) = tb_take n (tb_refill (tbl_rate l) (tbl_burst l) now b)
      in (ok, l\<lparr>tbl_buckets := (tbl_buckets l)(key \<mapsto> b)\<rparr>))"

definition tb_Allow :: "TokenBucketLimiter \<Rightarrow> time \<Rightarrow> string \<Rightarrow> bool \<times> TokenBucketLimiter" where
  "tb_Allow l now key = tb_AllowN l now key 1"

text \<open>One tick of \<open>cleanup\<close>: buckets idle for more than ten minutes are deleted.\<close>

definition tb_cleanup :: "TokenBucketLimiter \<Rightarrow> time \<Rightarrow> TokenBucketLimiter" where
  "tb_cleanup l now =
     (if tbl_stopped l then l
      else l\<lparr>tbl_buckets := (\<lambda>key. case tbl_buckets l key of
               None \<Rightarrow> None
             | Some b \<Rightarrow> if 600 * second < time_sub now (tb_lastCheck b) then None else Some b)\<rparr>)"

text \<open>Closing a closed channel panics.\<close>

definition tb_Stop :: "TokenBucketLimiter \<Rightarrow> TokenBucketLimiter outcome" where
  "tb_Stop l =
     (if tbl_stopped l then Panic ''close of closed channel'' else Return (l\<lparr>tbl_stopped := True\<rparr>))"

section \<open>Sliding window\<close>

text \<open>\<open>Time.Truncate\<close> counts from the zero time.\<close>

definition Truncate :: "time \<Rightarrow> duration \<Rightarrow> time" where
  "Truncate t d = (if d \<le> 0 then t else t - (t - zero_time) mod d)"

record slidingWindow =
  sw_prevCount :: int
  sw_currCount :: int
  sw_prevWindow :: time
  sw_currWindow :: time
  sw_windowSize :: duration

record SlidingWindowLimiter =
  swl_rate :: int
  swl_windowSize :: duration
  swl_windows :: "string \<rightharpoonup> slidingWindow"
  swl_cleanupTick :: duration
  swl_stopped :: bool

definition NewSlidingWindowLimiter :: "int \<Rightarrow> int \<Rightarrow> SlidingWindowLimiter" where
  "NewSlidingWindowLimiter requestsPerSecond windowSeconds =
     \<lparr>swl_rate = wrap64 (requestsPerSecond * windowSeconds),
      swl_windowSize = wrap64 (windowSeconds * second), swl_windows = Map.empty,
      swl_cleanupTick = 300 * second, swl_stopped = False\<rparr>"

definition sw_window :: "duration \<Rightarrow> time \<Rightarrow> slidingWindow option \<Rightarrow> slidingWindow" where
  "sw_window wsize now w =
     (case w of
        None \<Rightarrow> \<lparr>sw_prevCount = 0, sw_currCount = 0, sw_prevWindow = zero_time,
                 sw_currWindow = Truncate now wsize, sw_windowSize = wsize\<rparr>
      | Some w \<Rightarrow> w)"

definition sw_rotate :: "duration \<Rightarrow> time \<Rightarrow> slidingWindow \<Rightarrow> slidingWindow" where
  "sw_rotate wsize currWindowStart w =
     (if sw_currWindow w < currWindowStart
      then let timeDiff = time_sub currWindowStart (sw_currWindow w);
               w' = (if wrap64 (2 * wsize) \<le> timeDiff then w\<lparr>sw_prevCount := 0, sw_currCount := 0\<rparr>
                     else if wsize \<le> timeDiff
                     then w\<lparr>sw_prevCount := sw_currCount w, sw_currCount := 0\<rparr>
                     else w)
           in w'\<lparr>sw_prevWindow := sw_currWindow w, sw_currWindow := currWindowStart\<rparr>
      else w)"

text \<open>
  The weight of the previous window; for a window size of 0 it is \<open>0/0\<close>, a NaN (\<open>None\<close>),
  with which the comparison below is false.
\<close>

definition sw_weight :: "duration \<Rightarrow> duration \<Rightarrow> float64 option" where
  "sw_weight wsize elapsed =
     (if wsize = 0 then None
      else Some (fsub 1 (fdiv (float64_of_int elapsed) (float64_of_int wsize))))"

definition sw_take :: "int \<Rightarrow> duration \<Rightarrow> time \<Rightarrow> int \<Rightarrow> slidingWindow \<Rightarrow> bool \<times> slidingWindow" where
  "sw_take rate wsize now n w =
     (let elapsed = time_sub now (Truncate now wsize)
      in case sw_weight wsize elapsed of
           None \<Rightarrow> (False, w)
         | Some weight \<Rightarrow>
             (let weightedCount = fadd (fmul (float64_of_int (sw_prevCount w)) weight)
                    (float64_of_int (sw_currCount w))
              in if fadd weightedCount (float64_of_int n) \<le> float64_of_int rate
                 then (True, w\<lparr>sw_currCount := wrap64 (sw_currCount w + n)\<rparr>)
                 else (False, w)))"

definition sw_AllowN ::
  "SlidingWindowLimiter \<Rightarrow> time \<Rightarrow> string \<Rightarrow> int \<Rightarrow> bool \<times> SlidingWindowLimiter" where
  "sw_AllowN l now key n =
     (let w = sw_window (swl_windowSize l) now (swl_windows l key);
          w = sw_rotate (swl_windowSize l) (Truncate now (swl_windowSize l)) w;
          (ok, w) = sw_take (swl_rate l) (swl_windowSize l) now n w
      in (ok, l\<lparr>swl_windows := (swl_windows l)(key \<mapsto> w)\<rparr>))"

definition sw_Allow :: "SlidingWindowLimiter \<Rightarrow> time \<Rightarrow> string \<Rightarrow> bool \<times> SlidingWindowLimiter" where
  "sw_Allow l now key = sw_AllowN l now key 1"

definition sw_cleanup :: "SlidingWindowLimiter \<Rightarrow> time \<Rightarrow> SlidingWindowLimiter" where
  "sw_cleanup l now =
     (if swl_stopped l then l
      else l\<lparr>swl_windows := (\<lambda>key. case swl_windows l key of
               None \<Rightarrow> None
             | Some w \<Rightarrow> if 600 * second < time_sub now (sw_currWindow w) then None else Some w)\<rparr>)"

definition sw_Stop :: "SlidingWindowLimiter \<Rightarrow> SlidingWindowLimiter outcome" where
  "sw_Stop l =
     (if swl_stopped l then Panic ''close of closed channel'' else Return (l\<lparr>swl_stopped := True\<rparr>))"

section \<open>The interface and its users\<close>

text \<open>The two implementations of the interface \<open>Limiter\<close>; \<open>None\<close> is the nil interface.\<close>

datatype Limiter = TokenBucket TokenBucketLimiter | SlidingWindow SlidingWindowLimiter

fun Limiter_AllowN :: "Limiter \<Rightarrow> time \<Rightarrow> string \<Rightarrow> int \<Rightarrow> bool \<times> Limiter" where
  "Limiter_AllowN (TokenBucket l) now key n = map_prod id TokenBucket (tb_AllowN l now key n)"
| "Limiter_AllowN (SlidingWindow l) now key n = map_prod id SlidingWindow (sw_AllowN l now key n)"

fun Limiter_Allow :: "Limiter \<Rightarrow> time \<Rightarrow> string \<Rightarrow> bool \<times> Limiter" where
  "Limiter_Allow (TokenBucket l) now key = map_prod id TokenBucket (tb_Allow l now key)"
| "Limiter_Allow (SlidingWindow l) now key = map_prod id SlidingWindow (sw_Allow l now key)"

definition StrategyTokenBucket :: string where "StrategyTokenBucket = ''token_bucket''"

definition StrategySlidingWindow :: string where "StrategySlidingWindow = ''sliding_window''"

text \<open>\<open>ratelimit.Config\<close> has the fields of the configuration's \<open>RateLimitConfig\<close>.\<close>

definition NewLimiter :: "RateLimitConfig \<Rightarrow> Limiter option" where
  "NewLimiter cfg =
     (if \<not> rl_Enabled cfg then None
      else if rl_Strategy cfg = StrategySlidingWindow
      then Some (SlidingWindow (NewSlidingWindowLimiter (rl_RequestsPerSecond cfg) 1))
      else Some (TokenBucket
        (NewTokenBucketLimiter (float64_of_int (rl_RequestsPerSecond cfg)) (rl_Burst cfg))))"

record MultiLimiter =
  ml_global :: "Limiter option"
  ml_perChain :: "string \<rightharpoonup> Limiter option"

definition NewMultiLimiter :: "Limiter option \<Rightarrow> MultiLimiter" where
  "NewMultiLimiter global = \<lparr>ml_global = global, ml_perChain = Map.empty\<rparr>"

definition SetChainLimiter :: "MultiLimiter \<Rightarrow> string \<Rightarrow> Limiter option \<Rightarrow> MultiLimiter" where
  "SetChainLimiter m chain limiter = m\<lparr>ml_perChain := (ml_perChain m)(chain \<mapsto> limiter)\<rparr>"

text \<open>
  The limiters of a \<open>MultiLimiter\<close> are distinct objects here. The global one is compared
  with nil, the chain's is not.
\<close>

definition ml_Allow :: "MultiLimiter \<Rightarrow> time \<Rightarrow> string \<Rightarrow> string \<Rightarrow> (bool \<times> MultiLimiter) outcome" where
  "ml_Allow m now chain key =
     (let (ok, m) =
            (case ml_global m of
               None \<Rightarrow> (True, m)
             | Some g \<Rightarrow> (let (ok, g) = Limiter_Allow g now key in (ok, m\<lparr>ml_global := Some g\<rparr>)))
      in if \<not> ok then Return (False, m)
         else case ml_perChain m chain of
                None \<Rightarrow> Return (True, m)
              | Some None \<Rightarrow> Panic ''nil pointer dereference''
              | Some (Some l) \<Rightarrow>
                  (let (ok, l) = Limiter_Allow l now key;
                       m = m\<lparr>ml_perChain := (ml_perChain m)(chain \<mapsto> Some l)\<rparr>
                   in if \<not> ok then Return (False, m) else Return (True, m)))"

section \<open>The contract of a keyed limiter\<close>

text \<open>Calls in the order they take the mutex, and their verdicts, tagged with the key.\<close>

type_synonym rl_call = "time \<times> string \<times> int"

fun verdicts ::
  "('l \<Rightarrow> time \<Rightarrow> string \<Rightarrow> int \<Rightarrow> bool \<times> 'l) \<Rightarrow> rl_call list \<Rightarrow> 'l \<Rightarrow> (string \<times> bool) list" where
  "verdicts allow [] l = []"
| "verdicts allow ((t, k, n) # cs) l =
     (let (ok, l') = allow l t k n in (k, ok) # verdicts allow cs l')"

definition calls_of :: "string \<Rightarrow> rl_call list \<Rightarrow> rl_call list" where
  "calls_of k cs = [c \<leftarrow> cs. fst (snd c) = k]"

text \<open>The same for the state of one key.\<close>

fun local_verdicts ::
  "(time \<Rightarrow> int \<Rightarrow> 'v \<Rightarrow> bool \<times> 'v) \<Rightarrow> rl_call list \<Rightarrow> 'v \<Rightarrow> bool list" where
  "local_verdicts step [] v = []"
| "local_verdicts step ((t, k, n) # cs) v =
     (let (ok, v') = step t n v in ok # local_verdicts step cs v')"

lemma calls_of_simps [simp]:
  "calls_of k [] = []"
  "calls_of k ((t, k', n) # cs) = (if k' = k then (t, k', n) # calls_of k cs else calls_of k cs)"
  "calls_of k (calls_of k cs) = calls_of k cs"
  by (simp_all add: calls_of_def)

locale keyed_limiter =
  fixes allow :: "'l \<Rightarrow> time \<Rightarrow> string \<Rightarrow> int \<Rightarrow> bool \<times> 'l"
    and view :: "'l \<Rightarrow> string \<Rightarrow> 'v"
    and params :: "'l \<Rightarrow> 'p"
    and step :: "'p \<Rightarrow> time \<Rightarrow> int \<Rightarrow> 'v \<Rightarrow> bool \<times> 'v"
  assumes allow_verdict: "fst (allow l t k n) = fst (step (params l) t n (view l k))"
    and allow_view: "view (snd (allow l t k n)) k' =
      (if k' = k then snd (step (params l) t n (view l k)) else view l k')"
    and allow_params: "params (snd (allow l t k n)) = params l"
begin

lemma verdicts_local:
  "[ok. (k', ok) \<leftarrow> verdicts allow cs l, k' = k] =
     local_verdicts (step (params l)) (calls_of k cs) (view l k)"
proof (induction cs arbitrary: l)
  case (Cons c cs)
  obtain t k' n where c: "c = (t, k', n)" by (cases c)
  have "[ok. (k', ok) \<leftarrow> verdicts allow cs (snd (allow l t k' n)), k' = k] =
      local_verdicts (step (params l)) (calls_of k cs)
        (if k = k' then snd (step (params l) t n (view l k')) else view l k)"
    using Cons.IH [of "snd (allow l t k' n)"] by (simp only: allow_params allow_view)
  then show ?case
    by (auto simp: c split_def Let_def allow_verdict)
qed simp

lemma isolation:
  "[ok. (k', ok) \<leftarrow> verdicts allow cs l, k' = k] =
   [ok. (k', ok) \<leftarrow> verdicts allow (calls_of k cs) l, k' = k]"
  by (simp only: verdicts_local calls_of_simps)

end

definition tb_local ::
  "float64 \<times> int \<Rightarrow> time \<Rightarrow> int \<Rightarrow> tokenBucket option \<Rightarrow> bool \<times> tokenBucket option" where
  "tb_local p t n b =
     map_prod id Some (tb_take n (tb_refill (fst p) (snd p) t (tb_bucket (snd p) t b)))"

definition sw_local ::
  "int \<times> duration \<Rightarrow> time \<Rightarrow> int \<Rightarrow> slidingWindow option \<Rightarrow> bool \<times> slidingWindow option" where
  "sw_local p t n w =
     map_prod id Some (sw_take (fst p) (snd p) t n
       (sw_rotate (snd p) (Truncate t (snd p)) (sw_window (snd p) t w)))"

interpretation tb: keyed_limiter tb_AllowN tbl_buckets "\<lambda>l. (tbl_rate l, tbl_burst l)" tb_local
  by unfold_locales (simp_all add: tb_AllowN_def tb_local_def Let_def split_def)

interpretation sw: keyed_limiter sw_AllowN swl_windows "\<lambda>l. (swl_rate l, swl_windowSize l)" sw_local
  by unfold_locales (simp_all add: sw_AllowN_def sw_local_def Let_def split_def)

section \<open>Grants\<close>

text \<open>\<open>in_order t cs t'\<close>: the calls lie between \<open>t\<close> and \<open>t'\<close>, the clock not running backwards.\<close>

fun in_order :: "time \<Rightarrow> rl_call list \<Rightarrow> time \<Rightarrow> bool" where
  "in_order t [] t' = (t \<le> t')"
| "in_order t ((s, k, n) # cs) t' = (t \<le> s \<and> in_order s cs t')"

text \<open>What the calls of a key for which \<open>P\<close> holds were granted in total.\<close>

fun granted :: "(rl_call \<Rightarrow> bool) \<Rightarrow> rl_call list \<Rightarrow> (string \<times> bool) list \<Rightarrow> int" where
  "granted P ((t, k, n) # cs) ((k', ok) # vs) =
     (if ok \<and> P (t, k, n) then n else 0) + granted P cs vs"
| "granted P _ _ = 0"

fun local_granted :: "(rl_call \<Rightarrow> bool) \<Rightarrow> rl_call list \<Rightarrow> bool list \<Rightarrow> int" where
  "local_granted P ((t, k, n) # cs) (ok # vs) =
     (if ok \<and> P (t, k, n) then n else 0) + local_granted P cs vs"
| "local_granted P _ _ = 0"

lemma in_order_calls_of: "in_order t cs t' \<Longrightarrow> in_order t (calls_of k cs) t'"
proof (induction t cs t' rule: in_order.induct)
  case (2 t s k' n cs t')
  then have "in_order s (calls_of k cs) t'" by simp
  moreover have "in_order t cs t'" if "in_order s cs t'" for cs using that 2(2)
    by (cases "(t, cs, t')" rule: in_order.cases) auto
  ultimately show ?case using 2(2) by simp
qed simp

lemma in_order_le: "in_order t cs t' \<Longrightarrow> t \<le> t'"
  by (induction t cs t' rule: in_order.induct) auto

context keyed_limiter
begin

lemma granted_local:
  "granted (\<lambda>c. P c \<and> fst (snd c) = k) cs (verdicts allow cs l) =
     local_granted P (calls_of k cs) (local_verdicts (step (params l)) (calls_of k cs) (view l k))"
proof (induction cs arbitrary: l)
  case (Cons c cs)
  obtain t k' n where c: "c = (t, k', n)" by (cases c)
  have "granted (\<lambda>c. P c \<and> fst (snd c) = k) cs (verdicts allow cs (snd (allow l t k' n))) =
      local_granted P (calls_of k cs) (local_verdicts (step (params l)) (calls_of k cs)
        (if k = k' then snd (step (params l) t n (view l k')) else view l k))"
    using Cons.IH [of "snd (allow l t k' n)"] by (simp only: allow_params allow_view)
  then show ?case by (auto simp: c split_def Let_def allow_verdict)
qed simp

end

section \<open>Token bucket: bounds\<close>

definition tb_ok :: "int \<Rightarrow> time \<Rightarrow> tokenBucket \<Rightarrow> bool" where
  "tb_ok burst t b \<longleftrightarrow> 0 \<le> tb_tokens b \<and> tb_tokens b \<le> of_int burst \<and> tb_lastCheck b \<le> t"

lemma Seconds_0 [simp]: "Seconds 0 = 0"
  by (simp add: Seconds_split fadd_def fdiv_def rnd64_def)

lemma tb_ok_bucket:
  assumes "0 \<le> burst" and "burst < 2 ^ 53" and "\<And>b'. b = Some b' \<Longrightarrow> tb_ok burst t b'"
  shows "tb_ok burst t (tb_bucket burst t b)"
  using assms by (cases b) (simp_all add: tb_bucket_def tb_ok_def)

lemma tb_ok_refill:
  assumes "tb_ok burst t b" and "0 \<le> rate" and "0 \<le> burst" and "burst < 2 ^ 53"
  shows "tb_ok burst t (tb_refill rate burst t b)" and "tb_lastCheck (tb_refill rate burst t b) = t"
  using assms by (simp_all add: tb_ok_def tb_refill_def Let_def fadd_def fmul_def time_sub_nonneg)

lemma tb_take_admits:
  assumes "tb_ok burst t b" and "0 \<le> burst" and "burst < 2 ^ 53" and "0 \<le> n"
  shows "fst (tb_take n b) = (of_int n \<le> tb_tokens b)"
proof (cases "n \<le> burst")
  case True
  with assms show ?thesis by (simp add: tb_take_def)
next
  case False
  have n: "(of_int (burst + 1) :: rat) \<le> of_int n"
    using False by (simp only: of_int_le_iff)
  have "\<bar>burst + 1\<bar> \<le> 2 ^ 53" using assms by simp
  with n have "(of_int (burst + 1) :: rat) \<le> float64_of_int n"
    unfolding float64_of_int_def by (rule f64.rnd_ge)
  then have "\<not> float64_of_int n \<le> tb_tokens b" using assms(1) by (simp add: tb_ok_def)
  moreover have "\<not> of_int n \<le> tb_tokens b" using assms(1) n by (simp add: tb_ok_def)
  ultimately show ?thesis by (simp add: tb_take_def)
qed

lemma tb_take_exact:
  assumes "tb_ok burst t b" and "0 \<le> burst" and "burst < 2 ^ 53" and "0 \<le> n"
  shows "tb_take n b = (if of_int n \<le> tb_tokens b
    then (True, b\<lparr>tb_tokens := rnd64 (tb_tokens b - of_int n)\<rparr>) else (False, b))"
proof (cases "of_int n \<le> tb_tokens b")
  case True
  then have "(of_int n :: rat) \<le> of_int burst" using assms(1) unfolding tb_ok_def by linarith
  then have "n \<le> burst" by simp
  with assms True show ?thesis by (simp add: tb_take_def fsub_def)
next
  case False
  with tb_take_admits [OF assms] show ?thesis by (auto simp: tb_take_def split: if_splits)
qed

lemma tb_ok_take:
  assumes "tb_ok burst t b" and "0 \<le> burst" and "burst < 2 ^ 53" and "0 \<le> n"
  shows "tb_ok burst t (snd (tb_take n b))" and "tb_lastCheck (snd (tb_take n b)) = tb_lastCheck b"
proof -
  have "rnd64 (tb_tokens b - of_int n) \<le> of_int burst"
    using assms unfolding tb_ok_def by (intro f64.rnd_le) (auto intro: order_trans [of _ "tb_tokens b"])
  then show "tb_ok burst t (snd (tb_take n b))" and "tb_lastCheck (snd (tb_take n b)) = tb_lastCheck b"
    using assms(1) by (auto simp: tb_take_exact [OF assms] tb_ok_def)
qed

abbreviation ulp :: rat where "ulp \<equiv> 1 / 2 ^ 53"

lemma tb_refill_upper:
  assumes "tb_ok burst t b" and "0 \<le> rate" and "0 \<le> burst" and "burst < 2 ^ 53"
  shows "tb_tokens (tb_refill rate burst t b) \<le>
    tb_tokens b + of_int (t - tb_lastCheck b) / 1000000000 * rate * (1 + ulp) ^ 3 + of_int burst * ulp"
proof -
  let ?d = "time_sub t (tb_lastCheck b)" and ?el = "of_int (t - tb_lastCheck b) / 1000000000 :: rat"
  have d: "0 \<le> ?d" "?d \<le> t - tb_lastCheck b"
    using assms(1) by (simp_all add: tb_ok_def time_sub_def)
  have s: "Seconds ?d \<le> ?el * (1 + ulp) * (1 + ulp)"
  proof -
    have "of_int ?d / 1000000000 * (1 + ulp) * (1 + ulp) \<le> ?el * (1 + ulp) * (1 + ulp)"
      using d(2) by (intro mult_right_mono divide_right_mono) (simp_all flip: of_int_diff)
    with Seconds_upper [OF d(1)] show ?thesis by (rule order_trans)
  qed
  have "rnd64 (Seconds ?d * rate) \<le> Seconds ?d * rate * (1 + ulp)"
    using d assms(2) by (intro f64.rnd_upper) simp
  also have "\<dots> \<le> ?el * (1 + ulp) * (1 + ulp) * rate * (1 + ulp)"
    using s assms(2) by (intro mult_right_mono) simp_all
  also have "\<dots> = ?el * rate * (1 + ulp) ^ 3" by (simp add: power3_eq_cube ac_simps)
  finally have g: "rnd64 (Seconds ?d * rate) \<le> ?el * rate * (1 + ulp) ^ 3" .
  have "0 \<le> tb_tokens b + rnd64 (Seconds ?d * rate)"
    using assms(1,2) d(1) by (simp add: tb_ok_def)
  from f64.rnd_capped [OF this, of "of_int burst"] assms(3,4)
  have "tb_tokens (tb_refill rate burst t b) \<le>
      tb_tokens b + rnd64 (Seconds ?d * rate) + of_int burst * ulp"
    by (simp add: tb_refill_def Let_def fadd_def fmul_def min_def split: if_splits)
  also have "\<dots> \<le> tb_tokens b + ?el * rate * (1 + ulp) ^ 3 + of_int burst * ulp"
    using g by (intro add_mono order_refl)
  finally show ?thesis .
qed

lemma tb_take_upper:
  assumes "tb_ok burst t b" and "0 \<le> burst" and "burst < 2 ^ 53" and "0 \<le> n"
  shows "of_int (if fst (tb_take n b) then n else 0) + tb_tokens (snd (tb_take n b)) \<le>
    tb_tokens b + of_int burst * ulp"
proof (cases "of_int n \<le> tb_tokens b")
  case True
  have "rnd64 (tb_tokens b - of_int n) \<le> tb_tokens b - of_int n + (tb_tokens b - of_int n) / 2 ^ 53"
    using True by (intro f64.rnd_above) simp
  also have "(tb_tokens b - of_int n) / 2 ^ 53 \<le> of_int burst / 2 ^ 53"
    using assms(1,4) unfolding tb_ok_def by (intro divide_right_mono) (auto intro: order_trans [of _ "tb_tokens b"])
  finally show ?thesis using True by (simp add: tb_take_exact [OF assms])
next
  case False
  then show ?thesis using assms(2) by (simp add: tb_take_exact [OF assms])
qed

text \<open>The tokens a bucket earns in a time, with the roundings of \<open>Seconds\<close> and of the product.\<close>

definition earned :: "float64 \<Rightarrow> duration \<Rightarrow> rat" where
  "earned rate d = of_int d / 1000000000 * rate * (1 + ulp) ^ 3"

lemma earned_add: "earned rate d + earned rate d' = earned rate (d + d')"
  by (simp add: earned_def distrib_right add_divide_distrib)

lemma earned_mono: "0 \<le> rate \<Longrightarrow> d \<le> d' \<Longrightarrow> earned rate d \<le> earned rate d'"
  unfolding earned_def by (intro mult_right_mono divide_right_mono) simp_all

lemma earned_nonneg: "0 \<le> rate \<Longrightarrow> 0 \<le> d \<Longrightarrow> 0 \<le> earned rate d"
  by (simp add: earned_def)

lemma tb_ok_later: "tb_ok burst t b \<Longrightarrow> t \<le> t' \<Longrightarrow> tb_ok burst t' b"
  by (simp add: tb_ok_def)

lemma tb_step_upper:
  assumes "tb_ok burst t b" and "t \<le> s" and "0 \<le> rate" and "0 \<le> burst" and "burst < 2 ^ 53"
    and "0 \<le> n"
  defines "b' \<equiv> tb_take n (tb_refill rate burst s b)"
  shows "tb_ok burst s (snd b')" and "tb_lastCheck (snd b') = s"
    and "of_int (if fst b' then n else 0) + tb_tokens (snd b') \<le>
      tb_tokens b + earned rate (s - tb_lastCheck b) + 2 * of_int burst * ulp"
proof -
  note ok = tb_ok_later [OF assms(1,2)]
  note refill = tb_ok_refill [OF ok assms(3-5)]
  show "tb_ok burst s (snd b')" and "tb_lastCheck (snd b') = s"
    unfolding b'_def using tb_ok_take [OF refill(1) assms(4-6)] refill(2) by simp_all
  show "of_int (if fst b' then n else 0) + tb_tokens (snd b') \<le>
      tb_tokens b + earned rate (s - tb_lastCheck b) + 2 * of_int burst * ulp"
    unfolding b'_def earned_def
    using tb_take_upper [OF refill(1) assms(4-6)] tb_refill_upper [OF ok assms(3-5)] by simp
qed

lemma tb_local_granted:
  assumes "in_order t cs t'" and "tb_ok burst t b" and "0 \<le> rate" and "0 \<le> burst"
    and "burst < 2 ^ 53" and "\<forall>c\<in>set cs. 0 \<le> snd (snd c)"
  shows "of_int (local_granted P cs (local_verdicts (tb_local (rate, burst)) cs (Some b))) \<le>
    tb_tokens b + earned rate (t' - tb_lastCheck b) + 2 * of_int burst * ulp * of_nat (length cs)"
  using assms
proof (induction t cs t' arbitrary: b rule: in_order.induct)
  case (1 t t')
  then show ?case by (simp add: tb_ok_def earned_nonneg)
next
  case (2 t s k n cs t')
  let ?b = "tb_take n (tb_refill rate burst s b)"
  have n: "0 \<le> n" and s: "t \<le> s" and o: "in_order s cs t'" using "2.prems" by simp_all
  note step = tb_step_upper [OF "2.prems"(2) s "2.prems"(3-5) n]
  have IH: "of_int (local_granted P cs (local_verdicts (tb_local (rate, burst)) cs (Some (snd ?b)))) \<le>
      tb_tokens (snd ?b) + earned rate (t' - s) + 2 * of_int burst * ulp * of_nat (length cs)"
    using "2.IH" [OF o step(1) "2.prems"(3-5)] "2.prems"(6) step(2) by simp
  have e: "earned rate (s - tb_lastCheck b) + earned rate (t' - s) = earned rate (t' - tb_lastCheck b)"
    by (simp add: earned_add)
  have g: "of_int (if fst ?b \<and> P (s, k, n) then n else 0) \<le> (of_int (if fst ?b then n else 0) :: rat)"
    using n by simp
  have "local_granted P ((s, k, n) # cs)
        (local_verdicts (tb_local (rate, burst)) ((s, k, n) # cs) (Some b)) =
      (if fst ?b \<and> P (s, k, n) then n else 0) +
        local_granted P cs (local_verdicts (tb_local (rate, burst)) cs (Some (snd ?b)))"
    by (simp add: tb_local_def tb_bucket_def Let_def split_def)
  with IH step(3) e g show ?case by (simp add: distrib_left)
qed

lemma tb_local_None:
  "tb_local p t n None = tb_local p t n (Some \<lparr>tb_tokens = float64_of_int (snd p), tb_lastCheck = t\<rparr>)"
  by (simp add: tb_local_def tb_bucket_def)

lemma tb_local_granted_None:
  assumes "in_order t cs t'" and "0 \<le> rate" and "0 \<le> burst" and "burst < 2 ^ 53"
    and "\<forall>c\<in>set cs. 0 \<le> snd (snd c)"
  shows "of_int (local_granted P cs (local_verdicts (tb_local (rate, burst)) cs None)) \<le>
    of_int burst + earned rate (t' - t) + 2 * of_int burst * ulp * of_nat (length cs)"
proof (cases cs)
  case Nil
  then show ?thesis using assms by (simp add: earned_nonneg)
next
  case (Cons c cs')
  obtain s k n where c: "c = (s, k, n)" by (cases c)
  let ?b = "\<lparr>tb_tokens = of_int burst, tb_lastCheck = s\<rparr>"
  have "in_order s cs t'" "t \<le> s" using assms(1) by (simp_all add: Cons c)
  moreover have "tb_ok burst s ?b" using assms by (simp add: tb_ok_def)
  moreover have "local_verdicts (tb_local (rate, burst)) cs None =
      local_verdicts (tb_local (rate, burst)) cs (Some ?b)"
    using assms by (simp add: Cons c tb_local_None)
  moreover have "earned rate (t' - s) \<le> earned rate (t' - t)"
    using \<open>t \<le> s\<close> assms(2) by (intro earned_mono) simp_all
  ultimately show ?thesis
    using tb_local_granted [of s cs t' burst ?b rate P] assms by simp
qed

text \<open>Idle for \<open>s\<close> whole seconds in which the capacity is earned: the bucket is full.\<close>

lemma tb_refill_full:
  assumes "0 \<le> tb_tokens b" and "s * 1000000000 \<le> time_sub t (tb_lastCheck b)" and "0 \<le> s"
    and "0 \<le> rate" and "0 \<le> burst" and "burst < 2 ^ 53" and "of_int burst \<le> of_int s * rate"
  shows "tb_refill rate burst t b = \<lparr>tb_tokens = of_int burst, tb_lastCheck = t\<rparr>"
proof -
  let ?s = "Seconds (time_sub t (tb_lastCheck b))"
  have "s * 1000000000 < 2 ^ 63"
    using assms(2) by (auto simp: time_sub_def max_def min_def split: if_splits)
  then have "s \<le> 2 ^ 53" by simp
  from Seconds_ge [OF assms(2,3) this] have "of_int s * rate \<le> ?s * rate"
    using assms(4) by (intro mult_right_mono) simp_all
  then have "of_int burst \<le> rnd64 (?s * rate)"
    using assms(5-7) by (intro f64.rnd_ge) simp_all
  then have "of_int burst \<le> rnd64 (tb_tokens b + rnd64 (?s * rate))"
    using assms(1,5,6) by (intro f64.rnd_ge) simp_all
  then show ?thesis using assms(5,6) by (simp add: tb_refill_def fadd_def fmul_def Let_def)
qed

section \<open>Token bucket: clean-up\<close>

context keyed_limiter
begin

lemma verdicts_cong:
  assumes "params l = params l'"
    and "\<forall>k. local_verdicts (step (params l)) (calls_of k cs) (view l k) =
      local_verdicts (step (params l)) (calls_of k cs) (view l' k)"
  shows "verdicts allow cs l = verdicts allow cs l'"
  using assms
proof (induction cs arbitrary: l l')
  case (Cons c cs)
  obtain t k n where c: "c = (t, k, n)" by (cases c)
  let ?l = "snd (allow l t k n)" and ?l' = "snd (allow l' t k n)"
  have eq: "local_verdicts (step (params l)) (calls_of j ((t, k, n) # cs)) (view l j) =
      local_verdicts (step (params l)) (calls_of j ((t, k, n) # cs)) (view l' j)" for j
    using Cons.prems(2) by (simp only: c)
  have v: "fst (step (params l) t n (view l k)) = fst (step (params l) t n (view l' k))"
    using eq [of k] by (simp add: Let_def split_def)
  have "local_verdicts (step (params l)) (calls_of j cs) (view ?l j) =
      local_verdicts (step (params l)) (calls_of j cs) (view ?l' j)" for j
    using eq [of j] Cons.prems(1) by (simp add: allow_view Let_def split_def split: if_splits)
  then have "verdicts allow cs ?l = verdicts allow cs ?l'"
    using Cons.prems(1) by (intro Cons.IH) (simp_all add: allow_params)
  with v show ?case using Cons.prems(1) by (simp add: c Let_def split_def allow_verdict)
qed simp

end

definition tbl_ok :: "time \<Rightarrow> TokenBucketLimiter \<Rightarrow> bool" where
  "tbl_ok t l \<longleftrightarrow> (\<forall>k b. tbl_buckets l k = Some b \<longrightarrow> tb_ok (tbl_burst l) t b)"

definition tb_idle :: "time \<Rightarrow> tokenBucket option \<Rightarrow> tokenBucket option" where
  "tb_idle t v = (case v of
     None \<Rightarrow> None
   | Some b \<Rightarrow> if 600 * second < time_sub t (tb_lastCheck b) then None else Some b)"

lemma tb_cleanup_view:
  "tbl_buckets (tb_cleanup l t) k = (if tbl_stopped l then tbl_buckets l k else tb_idle t (tbl_buckets l k))"
  by (simp add: tb_cleanup_def tb_idle_def)

lemma tb_cleanup_params [simp]:
  "tbl_rate (tb_cleanup l t) = tbl_rate l" "tbl_burst (tb_cleanup l t) = tbl_burst l"
  "tbl_stopped (tb_cleanup l t) = tbl_stopped l"
  by (simp_all add: tb_cleanup_def)

lemma tb_local_idle:
  assumes "\<And>b. v = Some b \<Longrightarrow> 0 \<le> tb_tokens b" and "t \<le> s"
    and "0 \<le> rate" and "0 \<le> burst" and "burst < 2 ^ 53" and "of_int burst \<le> 600 * rate"
  shows "tb_local (rate, burst) s n (tb_idle t v) = tb_local (rate, burst) s n v"
proof (cases v)
  case (Some b)
  show ?thesis
  proof (cases "600 * second < time_sub t (tb_lastCheck b)")
    case True
    have "tb_refill rate burst s b = \<lparr>tb_tokens = of_int burst, tb_lastCheck = s\<rparr>"
      using assms Some True time_sub_mono [OF assms(2), of "tb_lastCheck b"]
      by (intro tb_refill_full [of b 600]) simp_all
    moreover have "tb_refill rate burst s \<lparr>tb_tokens = of_int burst, tb_lastCheck = s\<rparr> =
        \<lparr>tb_tokens = of_int burst, tb_lastCheck = s\<rparr>"
      using assms(4,5) by (simp add: tb_refill_def Let_def fadd_def fmul_def time_sub_def f64.rnd_exact
          f64.rnd_exact [of 0, simplified])
    ultimately show ?thesis
      using assms(4,5) Some True by (simp add: tb_local_def tb_idle_def tb_bucket_def)
  qed (simp add: Some tb_idle_def)
qed (simp add: tb_idle_def)

lemma tbl_ok_AllowN:
  assumes "tbl_ok t l" and "t \<le> s" and "0 \<le> tbl_rate l" and "0 \<le> tbl_burst l"
    and "tbl_burst l < 2 ^ 53" and "0 \<le> n"
  shows "tbl_ok s (snd (tb_AllowN l s k n))"
proof -
  have ok: "tb_ok (tbl_burst l) s b" if "tbl_buckets l j = Some b" for j b
    using that assms(1,2) tb_ok_later unfolding tbl_ok_def by blast
  then have "tb_ok (tbl_burst l) s (tb_bucket (tbl_burst l) s (tbl_buckets l k))"
    using assms by (intro tb_ok_bucket) auto
  from tb_ok_take(1) [OF tb_ok_refill(1) [OF this assms(3-5)] assms(4-6)] ok
  show ?thesis by (auto simp: tbl_ok_def tb_AllowN_def Let_def split_def)
qed

lemma tb_AllowN_params [simp]:
  "tbl_rate (snd (tb_AllowN l s k n)) = tbl_rate l" "tbl_burst (snd (tb_AllowN l s k n)) = tbl_burst l"
  "tbl_stopped (snd (tb_AllowN l s k n)) = tbl_stopped l"
  by (simp_all add: tb_AllowN_def Let_def split_def)

text \<open>The calls and clean-ups of a limiter's life.\<close>

datatype tbl_op = OpAllow time string int | OpCleanup time | OpStop

fun tbl_step :: "TokenBucketLimiter \<Rightarrow> tbl_op \<Rightarrow> TokenBucketLimiter" where
  "tbl_step l (OpAllow t k n) = snd (tb_AllowN l t k n)"
| "tbl_step l (OpCleanup t) = tb_cleanup l t"
| "tbl_step l OpStop = (case tb_Stop l of Return l' \<Rightarrow> l' | Panic e \<Rightarrow> l)"

fun tbl_in_order :: "time \<Rightarrow> tbl_op list \<Rightarrow> time \<Rightarrow> bool" where
  "tbl_in_order t [] t' = (t \<le> t')"
| "tbl_in_order t (OpAllow s k n # ops) t' = (t \<le> s \<and> 0 \<le> n \<and> tbl_in_order s ops t')"
| "tbl_in_order t (OpCleanup s # ops) t' = (t \<le> s \<and> tbl_in_order s ops t')"
| "tbl_in_order t (OpStop # ops) t' = tbl_in_order t ops t'"

lemma tbl_step_params [simp]:
  "tbl_rate (tbl_step l op) = tbl_rate l" "tbl_burst (tbl_step l op) = tbl_burst l"
  by (cases op; simp add: tb_Stop_def)+

lemma tbl_ok_later: "tbl_ok t l \<Longrightarrow> t \<le> s \<Longrightarrow> tbl_ok s l"
  unfolding tbl_ok_def using tb_ok_later by blast

lemma tbl_ok_cleanup: "tbl_ok t l \<Longrightarrow> t \<le> s \<Longrightarrow> tbl_ok s (tb_cleanup l s)"
  by (auto simp: tbl_ok_def tb_cleanup_view tb_idle_def intro: tb_ok_later
      split: if_splits option.splits)

lemma tbl_ok_Stop: "tbl_ok t l \<Longrightarrow> tbl_ok t (tbl_step l OpStop)"
  by (simp add: tbl_ok_def tb_Stop_def)

lemma tbl_ok_run:
  assumes "tbl_in_order t ops t'" and "tbl_ok t l" and "0 \<le> tbl_rate l" and "0 \<le> tbl_burst l"
    and "tbl_burst l < 2 ^ 53"
  shows "tbl_ok t' (foldl tbl_step l ops)"
  using assms
proof (induction t ops t' arbitrary: l rule: tbl_in_order.induct)
  case (1 t t')
  then show ?case by (simp add: tbl_ok_later)
next
  case (2 t s k n ops t')
  from 2 have "tbl_ok s (snd (tb_AllowN l s k n))" by (intro tbl_ok_AllowN [of t]) simp_all
  with 2 show ?case by simp
next
  case (3 t s ops t')
  then have "tbl_ok s (tb_cleanup l s)" by (intro tbl_ok_cleanup [of t]) simp_all
  with 3 show ?case by simp
next
  case (4 t ops t')
  then show ?case using tbl_ok_Stop [of t l] by (simp del: tbl_step.simps)
qed

lemma local_verdicts_first:
  assumes "\<And>s k n cs'. cs = (s, k, n) # cs' \<Longrightarrow> step s n v = step s n v'"
  shows "local_verdicts step cs v = local_verdicts step cs v'"
proof (cases cs)
  case (Cons c cs')
  then show ?thesis using assms by (cases c) simp
qed simp

lemma tb_cleanup_verdicts:
  assumes "tbl_ok t l" and "in_order t cs t'" and "0 \<le> tbl_rate l"
    and "0 \<le> tbl_burst l" and "tbl_burst l < 2 ^ 53" and "of_int (tbl_burst l) \<le> 600 * tbl_rate l"
  shows "verdicts tb_AllowN cs (tb_cleanup l t) = verdicts tb_AllowN cs l"
proof (rule tb.verdicts_cong)
  show "\<forall>k. local_verdicts (tb_local (tbl_rate (tb_cleanup l t), tbl_burst (tb_cleanup l t)))
        (calls_of k cs) (tbl_buckets (tb_cleanup l t) k) =
      local_verdicts (tb_local (tbl_rate (tb_cleanup l t), tbl_burst (tb_cleanup l t)))
        (calls_of k cs) (tbl_buckets l k)"
  proof (intro allI local_verdicts_first)
    fix k s k' n cs'
    assume "calls_of k cs = (s, k', n) # cs'"
    with in_order_calls_of [OF assms(2), of k] have "t \<le> s" by simp
    moreover have "0 \<le> tb_tokens b" if "tbl_buckets l k = Some b" for b
      using that assms(1) by (auto simp: tbl_ok_def tb_ok_def)
    ultimately show "tb_local (tbl_rate (tb_cleanup l t), tbl_burst (tb_cleanup l t)) s n
          (tbl_buckets (tb_cleanup l t) k) =
        tb_local (tbl_rate (tb_cleanup l t), tbl_burst (tb_cleanup l t)) s n (tbl_buckets l k)"
      using assms(3-6) by (simp add: tb_cleanup_view tb_local_idle)
  qed
qed simp

text \<open>
  The verdicts of a life with clean-ups: \<open>tbl_verdicts\<close> collects those of the calls, which are
  \<open>calls_in\<close>. Clean-up ticks are harmless when ten minutes earn at least the burst.
\<close>

fun tbl_verdicts :: "tbl_op list \<Rightarrow> TokenBucketLimiter \<Rightarrow> (string \<times> bool) list" where
  "tbl_verdicts [] l = []"
| "tbl_verdicts (OpAllow t k n # ops) l =
     (let (ok, l') = tb_AllowN l t k n in (k, ok) # tbl_verdicts ops l')"
| "tbl_verdicts (OpCleanup t # ops) l = tbl_verdicts ops (tb_cleanup l t)"
| "tbl_verdicts (OpStop # ops) l = tbl_verdicts ops (tbl_step l OpStop)"

fun calls_in :: "tbl_op list \<Rightarrow> rl_call list" where
  "calls_in [] = []"
| "calls_in (OpAllow t k n # ops) = (t, k, n) # calls_in ops"
| "calls_in (OpCleanup t # ops) = calls_in ops"
| "calls_in (OpStop # ops) = calls_in ops"

definition cleanup_harmless :: "float64 \<Rightarrow> int \<Rightarrow> tbl_op list \<Rightarrow> bool" where
  "cleanup_harmless rate burst ops \<longleftrightarrow> (\<forall>t. OpCleanup t \<notin> set ops) \<or> of_int burst \<le> 600 * rate"

lemma in_order_earlier: "in_order s cs t' \<Longrightarrow> t \<le> s \<Longrightarrow> in_order t cs t'"
  by (cases "(s, cs, t')" rule: in_order.cases) auto

lemma tbl_in_order_calls: "tbl_in_order t ops t' \<Longrightarrow> in_order t (calls_in ops) t'"
  by (induction t ops t' rule: tbl_in_order.induct) (auto intro: in_order_earlier)

lemma calls_in_nonneg: "tbl_in_order t ops t' \<Longrightarrow> \<forall>c\<in>set (calls_in ops). 0 \<le> snd (snd c)"
  by (induction t ops t' rule: tbl_in_order.induct) auto

lemma cleanup_harmless_tl: "cleanup_harmless rate burst (op # ops) \<Longrightarrow> cleanup_harmless rate burst ops"
  by (auto simp: cleanup_harmless_def)

lemma tbl_verdicts_calls:
  assumes "tbl_in_order t ops t'" and "tbl_ok t l" and "0 \<le> tbl_rate l" and "0 \<le> tbl_burst l"
    and "tbl_burst l < 2 ^ 53" and "cleanup_harmless (tbl_rate l) (tbl_burst l) ops"
  shows "tbl_verdicts ops l = verdicts tb_AllowN (calls_in ops) l"
  using assms
proof (induction t ops t' arbitrary: l rule: tbl_in_order.induct)
  case (2 t s k n ops t')
  from "2.prems" have "tbl_ok s (snd (tb_AllowN l s k n))" by (intro tbl_ok_AllowN [of t]) simp_all
  with "2.prems" cleanup_harmless_tl have "tbl_verdicts ops (snd (tb_AllowN l s k n)) =
      verdicts tb_AllowN (calls_in ops) (snd (tb_AllowN l s k n))"
    by (intro "2.IH") simp_all
  then show ?case by (simp add: Let_def split_def)
next
  case (3 t s ops t')
  from "3.prems" have s: "tbl_ok s l" "in_order s (calls_in ops) t'"
    using tbl_ok_later tbl_in_order_calls by auto
  have fill: "of_int (tbl_burst l) \<le> 600 * tbl_rate l"
    using "3.prems"(6) by (auto simp: cleanup_harmless_def)
  have "tbl_verdicts ops (tb_cleanup l s) = verdicts tb_AllowN (calls_in ops) (tb_cleanup l s)"
    using "3.prems" cleanup_harmless_tl tbl_ok_cleanup [OF s(1) order_refl] by (intro "3.IH") simp_all
  with tb_cleanup_verdicts [OF s "3.prems"(3-5) fill] show ?case by simp
next
  case (4 t ops t')
  have "tbl_verdicts ops (tbl_step l OpStop) = verdicts tb_AllowN (calls_in ops) (tbl_step l OpStop)"
    using "4.prems" cleanup_harmless_tl tbl_ok_Stop [of t l]
    by (intro "4.IH") (simp_all del: tbl_step.simps add: tbl_step_params)
  moreover have "verdicts tb_AllowN cs (tbl_step l OpStop) = verdicts tb_AllowN cs l" for cs
    by (rule tb.verdicts_cong) (simp_all add: tb_Stop_def)
  ultimately show ?case by simp
qed simp

section \<open>Sliding window\<close>

lemma Truncate_eq:
  assumes "0 < d"
  shows "Truncate t d = zero_time + (t - zero_time) div d * d"
proof -
  have "Truncate t d = t - (t - zero_time) mod d" using assms by (simp add: Truncate_def)
  moreover have "(t - zero_time) - (t - zero_time) mod d = (t - zero_time) div d * d"
    by (rule minus_mod_eq_div_mult)
  ultimately show ?thesis by linarith
qed

lemma Truncate_mono: "0 < d \<Longrightarrow> t \<le> s \<Longrightarrow> Truncate t d \<le> Truncate s d"
  by (simp add: Truncate_eq zdiv_mono1 mult_right_mono)

lemma Truncate_dvd: "0 < d \<Longrightarrow> d dvd Truncate t d - zero_time"
  by (simp add: Truncate_eq)

lemma Truncate_bounds: "0 < d \<Longrightarrow> Truncate t d \<le> t" "0 < d \<Longrightarrow> t < Truncate t d + d"
  by (simp_all add: Truncate_def)

definition sw_ok :: "int \<Rightarrow> duration \<Rightarrow> slidingWindow \<Rightarrow> bool" where
  "sw_ok rate d w \<longleftrightarrow> 0 \<le> sw_prevCount w \<and> 0 \<le> sw_currCount w \<and> sw_currCount w \<le> rate \<and>
     d dvd sw_currWindow w - zero_time"

lemma sw_ok_window:
  assumes "0 \<le> rate" and "0 < d" and "\<And>w'. w = Some w' \<Longrightarrow> sw_ok rate d w'"
  shows "sw_ok rate d (sw_window d t w)"
  using assms by (cases w) (simp_all add: sw_window_def sw_ok_def Truncate_dvd)

lemma sw_rotate_window:
  assumes "sw_ok rate d w" and "0 < d" and "d < 2 ^ 63" and "d dvd st - zero_time"
  shows "sw_ok rate d (sw_rotate d st w)"
    and "sw_currWindow (sw_rotate d st w) = max (sw_currWindow w) st"
    and "sw_currCount (sw_rotate d st w) = (if sw_currWindow w < st then 0 else sw_currCount w)"
proof -
  have "d \<le> time_sub st (sw_currWindow w)" if "sw_currWindow w < st"
  proof -
    have "d dvd st - sw_currWindow w"
      using dvd_diff [OF assms(4), of "sw_currWindow w - zero_time"] assms(1) by (simp add: sw_ok_def)
    then have "d \<le> st - sw_currWindow w" using that by (intro zdvd_imp_le) simp_all
    then show ?thesis using assms(3) by (simp add: time_sub_def)
  qed
  then show "sw_ok rate d (sw_rotate d st w)"
    and "sw_currWindow (sw_rotate d st w) = max (sw_currWindow w) st"
    and "sw_currCount (sw_rotate d st w) = (if sw_currWindow w < st then 0 else sw_currCount w)"
    using assms(1,4) by (auto simp: sw_rotate_def sw_ok_def Let_def)
qed

lemma sw_weight_nonneg:
  assumes "0 \<le> e" and "e < d" and "d < 2 ^ 63"
  obtains x where "sw_weight d e = Some x" and "0 \<le> x"
proof -
  have "0 \<le> float64_of_int e" "float64_of_int e \<le> float64_of_int d" "0 < float64_of_int d"
    using assms rnd_pos_pos [of "of_int d"]
    by (simp_all add: float64_of_int_def rnd64_mono) (simp_all add: rnd64_def)
  then have "fdiv (float64_of_int e) (float64_of_int d) \<le> of_int 1"
    unfolding fdiv_def by (intro f64.rnd_le) (simp_all add: divide_le_eq)
  then have "0 \<le> fsub 1 (fdiv (float64_of_int e) (float64_of_int d))" by (simp add: fsub_def)
  with that show thesis using assms by (simp add: sw_weight_def)
qed

lemma sw_take_cases:
  assumes "sw_ok rate d w" and "0 \<le> rate" and "rate < 2 ^ 53" and "0 < d" and "d < 2 ^ 63" and "0 \<le> n"
  shows "sw_take rate d t n w =
      (fst (sw_take rate d t n w),
       if fst (sw_take rate d t n w) then w\<lparr>sw_currCount := sw_currCount w + n\<rparr> else w)"
    and "fst (sw_take rate d t n w) \<Longrightarrow> sw_currCount w + n \<le> rate"
proof -
  have "0 \<le> time_sub t (Truncate t d)" "time_sub t (Truncate t d) < d"
    using Truncate_bounds [OF assms(4), of t] assms(4,5) by (simp_all add: time_sub_def)
  then obtain x where x: "sw_weight d (time_sub t (Truncate t d)) = Some x" "0 \<le> x"
    using assms(5) by (rule sw_weight_nonneg)
  let ?p = "fmul (float64_of_int (sw_prevCount w)) x"
  have c: "\<bar>sw_currCount w\<bar> \<le> 2 ^ 53" using assms(1,3) by (simp add: sw_ok_def)
  have p: "0 \<le> ?p"
    unfolding fmul_def float64_of_int_def using x(2) assms(1) by (intro f64.rnd_nonneg mult_nonneg_nonneg) (simp_all add: sw_ok_def)
  then have wc: "of_int (sw_currCount w) \<le> fadd ?p (float64_of_int (sw_currCount w))"
    unfolding fadd_def using c by (intro f64.rnd_ge) simp_all
  have le: "sw_currCount w + n \<le> rate"
    if "fadd (fadd ?p (float64_of_int (sw_currCount w))) (float64_of_int n) \<le> float64_of_int rate"
  proof (rule ccontr)
    assume "\<not> sw_currCount w + n \<le> rate"
    then have gt: "rate + 1 - sw_currCount w \<le> n" by simp
    have "(of_int (rate + 1 - sw_currCount w) :: rat) \<le> float64_of_int n"
      unfolding float64_of_int_def using gt assms(1-3)
      by (intro f64.rnd_ge) (simp only: of_int_le_iff, simp add: sw_ok_def)
    with wc have "of_int (rate + 1) \<le> fadd ?p (float64_of_int (sw_currCount w)) + float64_of_int n"
      by simp
    then have "of_int (rate + 1) \<le> fadd (fadd ?p (float64_of_int (sw_currCount w))) (float64_of_int n)"
      unfolding fadd_def [of "fadd ?p (float64_of_int (sw_currCount w))"]
      using assms(2,3) by (intro f64.rnd_ge) simp_all
    with that assms(2,3) show False by simp
  qed
  then show "fst (sw_take rate d t n w) \<Longrightarrow> sw_currCount w + n \<le> rate"
    by (simp add: sw_take_def Let_def x split: if_splits)
  moreover have "wrap64 (sw_currCount w + n) = sw_currCount w + n" if "sw_currCount w + n \<le> rate"
    using that assms(1,3,6) by (intro wrap64_id) (simp add: int64_def sw_ok_def)
  ultimately show "sw_take rate d t n w = (fst (sw_take rate d t n w),
       if fst (sw_take rate d t n w) then w\<lparr>sw_currCount := sw_currCount w + n\<rparr> else w)"
    using le by (simp add: sw_take_def Let_def x)
qed

lemma sw_local_granted:
  assumes "in_order t cs t'" and "sw_ok rate d w" and "sw_currWindow w \<le> Truncate t d"
    and "0 \<le> rate" and "rate < 2 ^ 53" and "0 < d" and "d < 2 ^ 63"
    and "\<forall>c\<in>set cs. 0 \<le> snd (snd c)"
  shows "local_granted (\<lambda>c. Truncate (fst c) d = st) cs
      (local_verdicts (sw_local (rate, d)) cs (Some w)) \<le>
    (if st < sw_currWindow w then 0 else if sw_currWindow w = st then rate - sw_currCount w else rate)"
  using assms
proof (induction t cs t' arbitrary: w rule: in_order.induct)
  case (1 t t')
  then show ?case by (simp add: sw_ok_def)
next
  case (2 t s k n cs t')
  let ?r = "sw_rotate d (Truncate s d) w"
  let ?w = "snd (sw_take rate d s n ?r)" and ?ok = "fst (sw_take rate d s n ?r)"
  have n: "0 \<le> n" and s: "t \<le> s" and o: "in_order s cs t'" using "2.prems" by simp_all
  have st: "sw_currWindow w \<le> Truncate s d"
    using "2.prems"(3) Truncate_mono [OF "2.prems"(6) s] by simp
  note rot = sw_rotate_window [OF "2.prems"(2,6,7) Truncate_dvd [OF "2.prems"(6), of s]]
  note tk = sw_take_cases [OF rot(1) "2.prems"(4-7) n, of s]
  have w: "?w = (if ?ok then ?r\<lparr>sw_currCount := sw_currCount ?r + n\<rparr> else ?r)"
    using arg_cong [OF tk(1), of snd] by (simp only: snd_conv)
  have cc: "sw_currCount ?w = (if ?ok then sw_currCount ?r + n else sw_currCount ?r)"
    by (simp add: w)
  have cw: "sw_currWindow ?w = Truncate s d" using rot(2) st by (simp add: w)
  have ok: "sw_ok rate d ?w" using rot(1) tk(2) n by (auto simp: w sw_ok_def)
  have le: "sw_currWindow ?w \<le> Truncate s d" by (simp only: cw)
  have ns: "\<forall>c\<in>set cs. 0 \<le> snd (snd c)" using "2.prems"(8) by simp
  note IH = "2.IH" [OF o ok le "2.prems"(4-7) ns, unfolded cw]
  have "local_granted (\<lambda>c. Truncate (fst c) d = st) ((s, k, n) # cs)
        (local_verdicts (sw_local (rate, d)) ((s, k, n) # cs) (Some w)) =
      (if ?ok \<and> Truncate s d = st then n else 0) +
        local_granted (\<lambda>c. Truncate (fst c) d = st) cs
          (local_verdicts (sw_local (rate, d)) cs (Some ?w))"
    by (simp add: sw_local_def sw_window_def Let_def split_def)
  moreover have "sw_currCount w \<le> rate" using "2.prems"(2) by (simp add: sw_ok_def)
  ultimately show ?case
    using IH st rot(3) tk(2) cc "2.prems"(4) by (auto split: if_splits)
qed

lemma sw_local_granted_None:
  assumes "in_order t cs t'" and "0 \<le> rate" and "rate < 2 ^ 53" and "0 < d" and "d < 2 ^ 63"
    and "\<forall>c\<in>set cs. 0 \<le> snd (snd c)"
  shows "local_granted (\<lambda>c. Truncate (fst c) d = st) cs
      (local_verdicts (sw_local (rate, d)) cs None) \<le> rate"
proof (cases cs)
  case Nil
  then show ?thesis using assms by simp
next
  case (Cons c cs')
  obtain s k n where c: "c = (s, k, n)" by (cases c)
  let ?w = "sw_window d s None"
  have "in_order s cs t'" using assms(1) by (simp add: Cons c)
  moreover have "sw_ok rate d ?w" using assms by (intro sw_ok_window) simp_all
  moreover have "local_verdicts (sw_local (rate, d)) cs None =
      local_verdicts (sw_local (rate, d)) cs (Some ?w)"
    by (simp add: Cons c sw_local_def sw_window_def)
  ultimately have "local_granted (\<lambda>c. Truncate (fst c) d = st) cs
      (local_verdicts (sw_local (rate, d)) cs None) \<le>
    (if st < sw_currWindow ?w then 0 else if sw_currWindow ?w = st then rate - sw_currCount ?w else rate)"
    using sw_local_granted [of s cs t' rate d ?w st] assms by (simp add: sw_window_def)
  then show ?thesis using assms(2) by (simp add: sw_window_def split: if_splits)
qed

lemma token_bucket_granted:
  assumes "0 \<le> rate" and "0 \<le> burst" and "burst < 2 ^ 53" and "tbl_in_order t ops t'"
    and "cleanup_harmless rate burst ops"
  shows "of_int (granted (\<lambda>c. fst (snd c) = k) (calls_in ops)
        (tbl_verdicts ops (NewTokenBucketLimiter rate burst))) \<le>
    of_int burst + earned rate (t' - t) + 2 * of_int burst * ulp * of_nat (length (calls_of k (calls_in ops)))"
proof -
  let ?l = "NewTokenBucketLimiter rate burst"
  have "tbl_verdicts ops ?l = verdicts tb_AllowN (calls_in ops) ?l"
    using assms by (intro tbl_verdicts_calls) (simp_all add: NewTokenBucketLimiter_def tbl_ok_def)
  moreover have "\<forall>c\<in>set (calls_of k (calls_in ops)). 0 \<le> snd (snd c)"
    using calls_in_nonneg [OF assms(4)] by (simp add: calls_of_def)
  note tb_local_granted_None [OF in_order_calls_of [OF tbl_in_order_calls [OF assms(4)]] assms(1-3) this,
      of "\<lambda>_. True"]
  ultimately show ?thesis
    using tb.granted_local [of "\<lambda>_. True" k "calls_in ops" ?l] by (simp add: NewTokenBucketLimiter_def)
qed

section \<open>Properties\<close>

text \<open>
  C5. A client is admitted at most the burst plus what the rate earns: in a life of the limiter,
  from \<open>NewTokenBucketLimiter\<close> on, with the calls of all clients, clean-up ticks and \<open>Stop\<close> in
  any order, the requests granted to a key exceed \<open>burst + rate * elapsed\<close> by no more than the
  rounding of \<open>float64\<close>, which is three relative roundings of the earned tokens and two
  roundings of the capacity per call. When the life has clean-up ticks, the burst must be
  earned in ten minutes (\<open>burst \<le> 600 * rate\<close>): otherwise a clean-up gives an idle client a
  full bucket that it has not earned (\<open>cleanup_breaks_bound\<close>).
\<close>

theorem token_bucket_admission_bound:
  assumes "0 \<le> rate" and "0 \<le> burst" and "burst < 2 ^ 53" and "tbl_in_order t ops t'"
    and "(\<forall>s. OpCleanup s \<notin> set ops) \<or> of_int burst \<le> 600 * rate"
  shows "of_int (granted (\<lambda>c. fst (snd c) = k) (calls_in ops)
        (tbl_verdicts ops (NewTokenBucketLimiter rate burst))) \<le>
    of_int burst + rate * of_int (t' - t) / 1000000000 * (1 + 1 / 2 ^ 53) ^ 3 +
      2 * of_int burst / 2 ^ 53 * of_nat (length (calls_of k (calls_in ops)))"
  using token_bucket_granted [OF assms [folded cleanup_harmless_def], of k]
  by (simp add: earned_def mult.commute [of rate])

definition sample_life :: "tbl_op list" where
  "sample_life = [OpAllow 0 ''a'' 2, OpAllow 5 ''b'' 1, OpCleanup 300000000000, OpCleanup 900000000000,
     OpAllow 900000000000 ''a'' 2]"

theorem token_bucket_admission_bound_witness:
  "of_int (granted (\<lambda>c. fst (snd c) = ''a'') (calls_in sample_life)
      (tbl_verdicts sample_life (NewTokenBucketLimiter (1 / 300) 2))) \<le> (6::rat)"
proof -
  have "of_int (granted (\<lambda>c. fst (snd c) = ''a'') (calls_in sample_life)
      (tbl_verdicts sample_life (NewTokenBucketLimiter (1 / 300) 2))) \<le>
      of_int 2 + (1 / 300) * of_int (900000000000 - 0) / 1000000000 * (1 + 1 / 2 ^ 53 :: rat) ^ 3 +
      2 * of_int 2 / 2 ^ 53 * of_nat (length (calls_of ''a'' (calls_in sample_life)))"
    by (rule token_bucket_admission_bound [where t = 0 and t' = 900000000000])
      (simp_all add: sample_life_def)
  also have "\<dots> \<le> 6" by (simp add: sample_life_def power3_eq_cube)
  finally show ?thesis .
qed

text \<open>Without that condition the bound fails: here 8 requests are granted though nothing is earned.\<close>

lemma cleanup_breaks_bound:
  "let ops = [OpAllow 0 ''a'' 4, OpCleanup (601 * second), OpAllow (601 * second) ''a'' 4]
   in granted (\<lambda>c. fst (snd c) = ''a'') (calls_in ops) (tbl_verdicts ops (NewTokenBucketLimiter 0 4)) = 8"
  by (simp add: NewTokenBucketLimiter_def tb_AllowN_def tb_cleanup_def tb_refill_def tb_take_def
      tb_bucket_def time_sub_def fadd_def fmul_def fsub_def Let_def f64.rnd_exact [of 0, simplified]
      f64.rnd_exact [of 4, simplified])

text \<open>
  Whatever is called, cleaned up or stopped, every bucket holds between 0 and \<open>burst\<close> tokens and
  was last checked in the past.
\<close>

lemma token_bucket_in_bounds:
  assumes "0 \<le> rate" and "0 \<le> burst" and "burst < 2 ^ 53" and "tbl_in_order t ops t'"
    and "tbl_buckets (foldl tbl_step (NewTokenBucketLimiter rate burst) ops) key = Some b"
  shows "0 \<le> tb_tokens b \<and> tb_tokens b \<le> of_int burst \<and> tb_lastCheck b \<le> t'"
proof -
  have "tbl_burst (foldl tbl_step l ops) = tbl_burst l" for l
    by (induction ops arbitrary: l) simp_all
  moreover have "tbl_ok t' (foldl tbl_step (NewTokenBucketLimiter rate burst) ops)"
    by (rule tbl_ok_run [OF assms(4)]) (use assms in \<open>simp_all add: NewTokenBucketLimiter_def tbl_ok_def\<close>)
  ultimately show ?thesis
    using assms(5) by (auto simp: tbl_ok_def tb_ok_def NewTokenBucketLimiter_def)
qed

text \<open>
  C18. An idle client gets its whole burst back: once as many whole seconds have passed as
  the rate needs to earn it, a request for up to \<open>burst\<close> is admitted, in spite of rounding.
\<close>

theorem token_bucket_refills:
  assumes "tbl_rate l = of_int r" and "0 \<le> r" and "0 \<le> tbl_burst l" and "tbl_burst l < 2 ^ 53"
    and "tbl_buckets l key = Some b" and "0 \<le> tb_tokens b"
    and "0 \<le> s" and "s * 1000000000 \<le> time_sub now (tb_lastCheck b)" and "tbl_burst l \<le> s * r"
    and "0 \<le> n" and "n \<le> tbl_burst l"
  shows "fst (tb_AllowN l now key n)"
proof -
  have "(of_int (tbl_burst l) :: rat) \<le> of_int (s * r)" using assms(9) by (simp only: of_int_le_iff)
  then have "tb_refill (of_int r) (tbl_burst l) now b =
      \<lparr>tb_tokens = of_int (tbl_burst l), tb_lastCheck = now\<rparr>"
    using assms by (intro tb_refill_full [of b s]) simp_all
  with assms(1,3-5,10,11) show ?thesis
    by (simp add: tb_AllowN_def tb_bucket_def tb_take_def Let_def split_def)
qed

theorem token_bucket_refills_witness:
  "fst (tb_AllowN ((NewTokenBucketLimiter 10 20)
       \<lparr>tbl_buckets := [''a'' \<mapsto> \<lparr>tb_tokens = 0, tb_lastCheck = 0\<rparr>]\<rparr>) 2000000000 ''a'' 20)"
  by (rule token_bucket_refills [where r = 10 and s = 2 and b = "\<lparr>tb_tokens = 0, tb_lastCheck = 0\<rparr>"])
    (simp_all add: NewTokenBucketLimiter_def time_sub_def)

text \<open>
  The clean-up cannot be observed as long as ten minutes earn at least the burst: deleting the
  idle buckets changes no later verdict of any client.
\<close>

lemma cleanup_unobservable:
  assumes "0 \<le> rate" and "0 \<le> burst" and "burst < 2 ^ 53" and "of_int burst \<le> 600 * rate"
    and "tbl_in_order t ops s" and "in_order s cs t'"
  shows "let l = foldl tbl_step (NewTokenBucketLimiter rate burst) ops
    in verdicts tb_AllowN cs (tb_cleanup l s) = verdicts tb_AllowN cs l"
proof -
  have p: "tbl_burst (foldl tbl_step l ops) = tbl_burst l"
    "tbl_rate (foldl tbl_step l ops) = tbl_rate l" for l
    by (induction ops arbitrary: l) simp_all
  have "tbl_ok s (foldl tbl_step (NewTokenBucketLimiter rate burst) ops)"
    by (rule tbl_ok_run [OF assms(5)]) (use assms in \<open>simp_all add: NewTokenBucketLimiter_def tbl_ok_def\<close>)
  from tb_cleanup_verdicts [OF this assms(6)] assms(1-4) show ?thesis
    by (simp add: p Let_def) (simp add: NewTokenBucketLimiter_def)
qed

lemma cleanup_unobservable_witness:
  "let l = foldl tbl_step (NewTokenBucketLimiter 1 600) [OpAllow 0 ''a'' 600]
   in verdicts tb_AllowN [(700000000000, ''a'', 600)] (tb_cleanup l 700000000000) =
      verdicts tb_AllowN [(700000000000, ''a'', 600)] l"
  by (rule cleanup_unobservable [where t = 0 and t' = 700000000000]) simp_all

text \<open>
  C17. Clients do not affect each other: in both limiters the verdicts of a key are those it would
  get if the calls of all other keys had never been made.
\<close>

theorem limiter_isolation:
  "[ok. (k', ok) \<leftarrow> verdicts tb_AllowN cs tb, k' = k] =
     [ok. (k', ok) \<leftarrow> verdicts tb_AllowN (calls_of k cs) tb, k' = k] \<and>
   [ok. (k', ok) \<leftarrow> verdicts sw_AllowN cs sw, k' = k] =
     [ok. (k', ok) \<leftarrow> verdicts sw_AllowN (calls_of k cs) sw, k' = k]"
  by (rule conjI [OF tb.isolation sw.isolation])

text \<open>
  C16. In one aligned window the sliding window limiter grants a client at most
  \<open>requestsPerSecond * windowSeconds\<close> requests, whatever happened before and between.
\<close>

theorem sliding_window_bound:
  assumes "0 \<le> rps" and "0 < secs" and "secs * second < 2 ^ 63" and "rps * secs < 2 ^ 53"
    and "in_order t cs t'" and "\<forall>c\<in>set cs. 0 \<le> snd (snd c)"
  shows "granted (\<lambda>c. Truncate (fst c) (secs * second) = st \<and> fst (snd c) = k) cs
      (verdicts sw_AllowN cs (NewSlidingWindowLimiter rps secs)) \<le> rps * secs"
proof -
  have pos: "0 \<le> rps * secs" using assms(1,2) by simp
  then have r: "wrap64 (rps * secs) = rps * secs" "wrap64 (secs * second) = secs * second"
    using assms(2-4) by (simp_all add: wrap64_id int64_def)
  note pos
  moreover have "\<forall>c\<in>set (calls_of k cs). 0 \<le> snd (snd c)" using assms(6) by (simp add: calls_of_def)
  ultimately show ?thesis
    using sw_local_granted_None [OF in_order_calls_of [OF assms(5)], of "rps * secs" "secs * second" k st]
      sw.granted_local [of "\<lambda>c. Truncate (fst c) (secs * second) = st" k cs
        "NewSlidingWindowLimiter rps secs"] assms(2-4)
    by (simp add: NewSlidingWindowLimiter_def r)
qed

theorem sliding_window_bound_witness:
  "granted (\<lambda>c. Truncate (fst c) second = 0 \<and> fst (snd c) = ''a'')
     [(0, ''a'', 1), (1, ''a'', 2), (2, ''b'', 1), (3, ''a'', 1)]
     (verdicts sw_AllowN [(0, ''a'', 1), (1, ''a'', 2), (2, ''b'', 1), (3, ''a'', 1)]
        (NewSlidingWindowLimiter 2 1)) \<le> 2"
  using sliding_window_bound [where rps = 2 and secs = 1 and t = 0 and t' = 3 and st = 0 and k = "''a''"
      and cs = "[(0, ''a'', 1), (1, ''a'', 2), (2, ''b'', 1), (3, ''a'', 1)]"] by simp

text \<open>
  A \<open>MultiLimiter\<close> admits a request exactly when the global limiter and then the chain's admit
  it. A request the chain rejects has still been charged to the global limiter, and a chain
  whose limiter was made from a disabled configuration (a nil interface) panics instead of
  being unlimited.
\<close>

lemma multi_limiter_verdict:
  assumes "ml_global m = Some g" and "Limiter_Allow g now key = (ok, g')"
  shows "(\<forall>l. ml_perChain m chain = Some (Some l) \<longrightarrow>
      (\<exists>m'. ml_Allow m now chain key = Return (ok \<and> fst (Limiter_Allow l now key), m') \<and>
         ml_global m' = Some g' \<and> (\<not> ok \<longrightarrow> ml_perChain m' = ml_perChain m))) \<and>
    (ok \<and> \<not> rl_Enabled cfg \<longrightarrow>
      ml_Allow (SetChainLimiter m chain (NewLimiter cfg)) now chain key =
        Panic ''nil pointer dereference'')"
  using assms
  by (auto simp: ml_Allow_def SetChainLimiter_def NewLimiter_def Let_def split_def)

end
