(* ===== verification/Metrics.thy ===== *)
theory Metrics
  imports Float64
begin

text \<open>
  \<open>internal/metrics/prometheus.go\<close>: the metric vectors and the recording functions. The
  Prometheus client is not part of the repository; what the proxy does is the sequence of
  calls it makes to it, so the state is the list of these calls, the latest last.
\<close>

datatype vec =
    RequestsTotal | RequestDuration | EndpointHealth | BlockHeight | EndpointBlockHeight
  | EndpointLatency | CacheHits | CacheMisses | RateLimitRejects | HealthyEndpointsGauge
  | TotalEndpointsGauge | ErrorsTotal

datatype metric_kind = CounterVec | HistogramVec | GaugeVec

text \<open>
  The options each vector is registered with: kind, name and label names. Help texts and
  histogram buckets play no part in the calls.
\<close>

fun vec_opts :: "vec \<Rightarrow> metric_kind \<times> string \<times> string list" where
  "vec_opts RequestsTotal = (CounterVec, ''rpc_proxy_requests_total'', [''chain'', ''method''])"
| "vec_opts RequestDuration =
     (HistogramVec, ''rpc_proxy_request_duration_seconds'', [''chain'', ''method'', ''status''])"
| "vec_opts EndpointHealth = (GaugeVec, ''rpc_proxy_endpoint_healthy'', [''chain'', ''endpoint''])"
| "vec_opts BlockHeight = (GaugeVec, ''rpc_proxy_block_height'', [''chain''])"
| "vec_opts EndpointBlockHeight =
     (GaugeVec, ''rpc_proxy_endpoint_block_height'', [''chain'', ''endpoint''])"
| "vec_opts EndpointLatency =
     (GaugeVec, ''rpc_proxy_endpoint_latency_ms'', [''chain'', ''endpoint''])"
| "vec_opts CacheHits = (CounterVec, ''rpc_proxy_cache_hits_total'', [''chain'', ''method''])"
| "vec_opts CacheMisses = (CounterVec, ''rpc_proxy_cache_misses_total'', [''chain'', ''method''])"
| "vec_opts RateLimitRejects = (CounterVec, ''rpc_proxy_rate_limit_rejects_total'', [''chain''])"
| "vec_opts HealthyEndpointsGauge = (GaugeVec, ''rpc_proxy_healthy_endpoints'', [''chain''])"
| "vec_opts TotalEndpointsGauge = (GaugeVec, ''rpc_proxy_total_endpoints'', [''chain''])"
| "vec_opts ErrorsTotal = (CounterVec, ''rpc_proxy_errors_total'', [''chain'', ''type''])"

datatype metric_call =
    Inc vec "string list"
  | Observe vec "string list" float64
  | SetGauge vec "string list" float64

type_synonym metrics = "metric_call list"

definition RecordRequest :: "string \<Rightarrow> string \<Rightarrow> metrics \<Rightarrow> metrics" where
  "RecordRequest chain method ms = ms @ [Inc RequestsTotal [chain, method]]"

definition RecordRequestDuration ::
  "string \<Rightarrow> string \<Rightarrow> string \<Rightarrow> float64 \<Rightarrow> metrics \<Rightarrow> metrics" where
  "RecordRequestDuration chain method status duration ms =
     ms @ [Observe RequestDuration [chain, method, status] duration]"

definition RecordEndpointHealth :: "string \<Rightarrow> string \<Rightarrow> bool \<Rightarrow> metrics \<Rightarrow> metrics" where
  "RecordEndpointHealth chain endpoint healthy ms =
     (let val = (if healthy then 1 else 0) in ms @ [SetGauge EndpointHealth [chain, endpoint] val])"

definition RecordBlockHeight :: "string \<Rightarrow> int \<Rightarrow> metrics \<Rightarrow> metrics" where
  "RecordBlockHeight chain height ms = ms @ [SetGauge BlockHeight [chain] (float64_of_int height)]"

definition RecordEndpointBlockHeight :: "string \<Rightarrow> string \<Rightarrow> int \<Rightarrow> metrics \<Rightarrow> metrics" where
  "RecordEndpointBlockHeight chain endpoint height ms =
     ms @ [SetGauge EndpointBlockHeight [chain, endpoint] (float64_of_int height)]"

definition RecordEndpointLatency :: "string \<Rightarrow> string \<Rightarrow> float64 \<Rightarrow> metrics \<Rightarrow> metrics" where
  "RecordEndpointLatency chain endpoint latencyMs ms =
     ms @ [SetGauge EndpointLatency [chain, endpoint] latencyMs]"

definition RecordCacheHit :: "string \<Rightarrow> string \<Rightarrow> metrics \<Rightarrow> metrics" where
  "RecordCacheHit chain method ms = ms @ [Inc CacheHits [chain, method]]"

definition RecordCacheMiss :: "string \<Rightarrow> string \<Rightarrow> metrics \<Rightarrow> metrics" where
  "RecordCacheMiss chain method ms = ms @ [Inc CacheMisses [chain, method]]"

definition RecordRateLimitReject :: "string \<Rightarrow> metrics \<Rightarrow> metrics" where
  "RecordRateLimitReject chain ms = ms @ [Inc RateLimitRejects [chain]]"

definition RecordHealthyEndpoints :: "string \<Rightarrow> int \<Rightarrow> metrics \<Rightarrow> metrics" where
  "RecordHealthyEndpoints chain count ms =
     ms @ [SetGauge HealthyEndpointsGauge [chain] (float64_of_int count)]"

definition RecordTotalEndpoints :: "string \<Rightarrow> int \<Rightarrow> metrics \<Rightarrow> metrics" where
  "RecordTotalEndpoints chain count ms =
     ms @ [SetGauge TotalEndpointsGauge [chain] (float64_of_int count)]"

definition RecordError :: "string \<Rightarrow> string \<Rightarrow> metrics \<Rightarrow> metrics" where
  "RecordError chain errType ms = ms @ [Inc ErrorsTotal [chain, errType]]"

lemmas metrics_defs [go_defs] =
  RecordRequest_def RecordRequestDuration_def RecordEndpointHealth_def RecordBlockHeight_def
  RecordEndpointBlockHeight_def RecordEndpointLatency_def RecordCacheHit_def RecordCacheMiss_def
  RecordRateLimitReject_def RecordHealthyEndpoints_def RecordTotalEndpoints_def RecordError_def

text \<open>
  A call that the client library accepts: its method exists for the kind of the vector and
  it gives one value per label; \<open>WithLabelValues\<close> panics otherwise. (It would also panic for a
  value that is not valid UTF-8, which is not considered.)
\<close>

fun call_ok :: "metric_call \<Rightarrow> bool" where
  "call_ok (Inc v ls) = (fst (vec_opts v) = CounterVec \<and> length ls = length (snd (snd (vec_opts v))))"
| "call_ok (Observe v ls x) =
     (fst (vec_opts v) = HistogramVec \<and> length ls = length (snd (snd (vec_opts v))))"
| "call_ok (SetGauge v ls x) =
     (fst (vec_opts v) = GaugeVec \<and> length ls = length (snd (snd (vec_opts v))))"

text \<open>How often a counter was incremented.\<close>

definition counted :: "vec \<Rightarrow> string list \<Rightarrow> metrics \<Rightarrow> nat" where
  "counted v ls ms = length (filter (\<lambda>c. c = Inc v ls) ms)"

lemma counted_append [simp]: "counted v ls (ms @ ms') = counted v ls ms + counted v ls ms'"
  by (simp add: counted_def)

lemma counted_simps [simp]:
  "counted v ls [] = 0"
  "counted v ls (Inc v' ls' # ms) = (if v' = v \<and> ls' = ls then 1 else 0) + counted v ls ms"
  "counted v ls (Observe v' ls' x # ms) = counted v ls ms"
  "counted v ls (SetGauge v' ls' x # ms) = counted v ls ms"
  by (simp_all add: counted_def)

end
