(* ===== verification/Proxy.thy ===== *)
theory Proxy
  imports HealthCheck Cache RateLimit Metrics
begin

text \<open>
  \<open>internal/proxy\<close>: the HTTP handlers and the middleware. A fiber context is the pair of the
  request and the response built so far; the rest of the server (chains, cache, rate
  limiter, metrics) is the state the handlers share. \<open>c.Next()\<close> is an argument of the
  middleware, the JSON decoder an argument of the handler.
\<close>

section \<open>The proxy's own token bucket\<close>

record bucket =
  bk_tokens :: float64
  bk_lastCheck :: time

record RateLimiter =
  rlm_enabled :: bool
  rlm_rate :: float64
  rlm_burst :: int
  rlm_buckets :: "string \<rightharpoonup> bucket"
  rlm_cleanupTick :: duration

definition NewRateLimiter :: "RateLimitConfig \<Rightarrow> RateLimiter" where
  "NewRateLimiter cfg =
     \<lparr>rlm_enabled = rl_Enabled cfg, rlm_rate = float64_of_int (rl_RequestsPerSecond cfg),
      rlm_burst = rl_Burst cfg, rlm_buckets = Map.empty, rlm_cleanupTick = 300 * second\<rparr>"

definition rlm_Allow :: "RateLimiter \<Rightarrow> time \<Rightarrow> string \<Rightarrow> bool \<times> RateLimiter" where
  "rlm_Allow rl now key =
     (if \<not> rlm_enabled rl then (True, rl)
      else
        let b = (case rlm_buckets rl key of
                   None \<Rightarrow> \<lparr>bk_tokens = float64_of_int (rlm_burst rl), bk_lastCheck = now\<rparr>
                 | Some b \<Rightarrow> b);
            elapsed = Seconds (time_sub now (bk_lastCheck b));
            tokens = fadd (bk_tokens b) (fmul elapsed (rlm_rate rl));
            tokens = (if float64_of_int (rlm_burst rl) < tokens then float64_of_int (rlm_burst rl)
                      else tokens)
        in if 1 \<le> tokens
           then (True, rl\<lparr>rlm_buckets := (rlm_buckets rl)
                   (key \<mapsto> \<lparr>bk_tokens = fsub tokens 1, bk_lastCheck = now\<rparr>)\<rparr>)
           else (False, rl\<lparr>rlm_buckets := (rlm_buckets rl)
                   (key \<mapsto> \<lparr>bk_tokens = tokens, bk_lastCheck = now\<rparr>)\<rparr>))"

text \<open>One tick of \<open>cleanup\<close>, which only an enabled limiter starts and nothing stops.\<close>

definition rlm_cleanup :: "RateLimiter \<Rightarrow> time \<Rightarrow> RateLimiter" where
  "rlm_cleanup rl now =
     (if \<not> rlm_enabled rl then rl
      else rl\<lparr>rlm_buckets := (\<lambda>key. case rlm_buckets rl key of
               None \<Rightarrow> None
             | Some b \<Rightarrow> if 600 * second < time_sub now (bk_lastCheck b) then None else Some b)\<rparr>)"

section \<open>Contexts\<close>

record request =
  rqs_Method :: string
  rqs_Path :: string
  rqs_IP :: string
  rqs_Chain :: string
  rqs_Body :: bytes

datatype body = BodyBytes bytes | BodyJSON json

record response =
  rsp_Status :: int
  rsp_Headers :: "string \<rightharpoonup> string"
  rsp_Body :: body

definition new_response :: response where
  "new_response = \<lparr>rsp_Status = 200, rsp_Headers = Map.empty, rsp_Body = BodyBytes []\<rparr>"

definition set_header :: "string \<Rightarrow> string \<Rightarrow> response \<Rightarrow> response" where
  "set_header k v r = r\<lparr>rsp_Headers := (rsp_Headers r)(k \<mapsto> v)\<rparr>"

definition send_bytes :: "bytes \<Rightarrow> response \<Rightarrow> response" where
  "send_bytes b r = r\<lparr>rsp_Body := BodyBytes b\<rparr>"

text \<open>\<open>c.Status(code).JSON(v)\<close>\<close>

definition send_json :: "int \<Rightarrow> json \<Rightarrow> response \<Rightarrow> response" where
  "send_json code v r =
     set_header ''Content-Type'' ''application/json'' (r\<lparr>rsp_Status := code, rsp_Body := BodyJSON v\<rparr>)"

definition json_int :: "int \<Rightarrow> json" where
  "json_int n = JNumber (of_int n)"

section \<open>The RPC handler\<close>

record rpcRequest =
  rr_JSONRPC :: string
  rr_Method :: string
  rr_Params :: bytes
  rr_ID :: json

text \<open>\<open>rpcError\<close> as it is encoded.\<close>

definition rpcError :: "int \<Rightarrow> string \<Rightarrow> json \<Rightarrow> json" where
  "rpcError code message i = JObject
     [(''jsonrpc'', JString ''2.0''),
      (''error'', JObject [(''code'', json_int code), (''message'', JString message)]),
      (''id'', i)]"

text \<open>The state the handlers and the middleware share; \<open>Handler\<close> holds the first two.\<close>

record 'tls server =
  sv_manager :: "'tls Manager"
  sv_cache :: InMemoryCache
  sv_limiter :: RateLimiter
  sv_metrics :: metrics

text \<open>
  What one call of \<open>HandleRPC\<close> meets: the clock at its start, at its reading and its writing
  of the cache and at its end, the attempts of \<open>ForwardWithRetry\<close>, and what other requests
  do to the cache while this one is forwarded.
\<close>

record 'tls rpc_env =
  rv_start :: time
  rv_get :: time
  rv_set :: time
  rv_end :: time
  rv_attempt :: "nat \<Rightarrow> 'tls attempt"
  rv_cache :: "InMemoryCache \<Rightarrow> InMemoryCache"

definition rpc_seconds :: "'tls rpc_env \<Rightarrow> float64" where
  "rpc_seconds env = Seconds (time_sub (rv_end env) (rv_start env))"

definition record_metrics :: "(metrics \<Rightarrow> metrics) \<Rightarrow> 'tls server \<Rightarrow> 'tls server" where
  "record_metrics f sv = sv\<lparr>sv_metrics := f (sv_metrics sv)\<rparr>"

text \<open>From the lookup in the cache to the answer, for a chain that exists and a parsed request.\<close>

definition rpc_cached ::
  "'tls rpc_env \<Rightarrow> string \<Rightarrow> rpcRequest \<Rightarrow> 'tls server \<Rightarrow> bytes option \<times> 'tls server" where
  "rpc_cached env chainName req sv =
     (if mc_IsCacheable (sv_cache sv) (rr_Method req)
      then let (cached, c) = mc_Get (sv_cache sv) (rv_get env) chainName (rr_Method req) (rr_Params req);
               sv = sv\<lparr>sv_cache := c\<rparr>
           in case cached of
                Some b \<Rightarrow> (Some b, record_metrics (RecordRequestDuration chainName (rr_Method req)
                    ''cache_hit'' (rpc_seconds env) \<circ> RecordCacheHit chainName (rr_Method req)) sv)
              | None \<Rightarrow> (None, record_metrics (RecordCacheMiss chainName (rr_Method req)) sv)
      else (None, sv))"

definition rpc_forward ::
  "'tls rpc_env \<Rightarrow> string \<Rightarrow> bytes \<Rightarrow> rpcRequest \<Rightarrow> 'tls Chain \<Rightarrow> response \<times> 'tls server \<Rightarrow>
     response \<times> 'tls server" where
  "rpc_forward env chainName body req ch s =
     (case s of (r, sv) \<Rightarrow>
       (case ForwardWithRetry ch body 2 (rv_attempt env) of
          (Inl err, ch') \<Rightarrow>
            (send_json 502 (rpcError (- 32603) (''Internal error: '' @ error_text err) (rr_ID req)) r,
             record_metrics (RecordRequestDuration chainName (rr_Method req) ''error'' (rpc_seconds env)
                 \<circ> RecordError chainName ''forward_error'')
               (sv\<lparr>sv_manager := put_chain chainName ch' (sv_manager sv), sv_cache := rv_cache env (sv_cache sv)\<rparr>))
        | (Inr resp, ch') \<Rightarrow>
            (let c = rv_cache env (sv_cache sv);
                 c = (if mc_IsCacheable c (rr_Method req)
                      then mc_Set c (rv_set env) chainName (rr_Method req) (rr_Params req) resp else c)
             in (send_bytes resp (set_header ''Content-Type'' ''application/json''
                   (set_header ''X-Cache'' ''MISS'' r)),
                 record_metrics (RecordRequestDuration chainName (rr_Method req) ''success'' (rpc_seconds env))
                   (sv\<lparr>sv_manager := put_chain chainName ch' (sv_manager sv), sv_cache := c\<rparr>)))))"

definition HandleRPC ::
  "(bytes \<Rightarrow> go_error + rpcRequest) \<Rightarrow> 'tls rpc_env \<Rightarrow> request \<Rightarrow> response \<times> 'tls server \<Rightarrow>
     response \<times> 'tls server" where
  "HandleRPC unmarshal env rq s =
     (case s of (r, sv) \<Rightarrow>
       let chainName = rqs_Chain rq
       in case GetChain (sv_manager sv) chainName of
            None \<Rightarrow> (send_json 404 (JObject [(''error'', JString ''chain not found''),
                (''chain'', JString chainName)]) r, sv)
          | Some ch \<Rightarrow>
              (case unmarshal (rqs_Body rq) of
                 Inl err \<Rightarrow> (send_json 400 (rpcError (- 32700) ''Parse error'' JNull) r,
                   record_metrics (RecordError chainName ''parse_error'') sv)
               | Inr req \<Rightarrow>
                   (let sv = record_metrics (RecordRequest chainName (rr_Method req)) sv
                    in case rpc_cached env chainName req sv of
                         (Some cached, sv) \<Rightarrow> (send_bytes cached (set_header ''X-Cache'' ''HIT'' r), sv)
                       | (None, sv) \<Rightarrow> rpc_forward env chainName (rqs_Body rq) req ch (r, sv))))"

section \<open>The status handlers\<close>

definition chain_health_json :: "ChainStats \<Rightarrow> json" where
  "chain_health_json s = JObject
     [(''healthy'', JBool (0 < cs_HealthyEndpoints s)),
      (''healthy_endpoints'', json_int (cs_HealthyEndpoints s)),
      (''total_endpoints'', json_int (cs_TotalEndpoints s)),
      (''block_height'', json_int (cs_HighestBlock s))]"

fun health_loop ::
  "ChainStats gomap \<Rightarrow> bool \<Rightarrow> (string \<times> json) list \<Rightarrow> metrics \<Rightarrow>
     bool \<times> (string \<times> json) list \<times> metrics" where
  "health_loop [] ok cm ms = (ok, cm, ms)"
| "health_loop ((name, s) # stats) ok cm ms =
     (let chainHealthy = 0 < cs_HealthyEndpoints s
      in health_loop stats (if \<not> chainHealthy then False else ok)
           (cm @ [(name, chain_health_json s)])
           (RecordBlockHeight name (cs_HighestBlock s)
             (RecordTotalEndpoints name (cs_TotalEndpoints s)
               (RecordHealthyEndpoints name (cs_HealthyEndpoints s) ms))))"

definition HandleHealth :: "response \<times> 'tls server \<Rightarrow> response \<times> 'tls server" where
  "HandleHealth s =
     (case s of (r, sv) \<Rightarrow>
       let (healthy, chains, ms) = health_loop (AllStats (sv_manager sv)) True [] (sv_metrics sv);
           status = (if \<not> healthy then 503 else 200)
       in (send_json status (JObject
             [(''status'', JString (if healthy then ''healthy'' else ''degraded'')),
              (''chains'', JObject chains)]) r,
           sv\<lparr>sv_metrics := ms\<rparr>))"

definition endpoint_json :: "EndpointStats \<Rightarrow> json" where
  "endpoint_json ep = JObject
     [(''url'', JString (es_URL ep)), (''healthy'', JBool (es_Healthy ep)),
      (''block_height'', json_int (es_BlockHeight ep)), (''latency_ms'', JNumber (es_LatencyMs ep)),
      (''total_reqs'', json_int (es_TotalReqs ep)), (''failed_reqs'', json_int (es_FailedReqs ep))]"

fun endpoints_loop ::
  "string \<Rightarrow> EndpointStats list \<Rightarrow> json list \<Rightarrow> metrics \<Rightarrow> json list \<times> metrics" where
  "endpoints_loop chainName [] eps ms = (eps, ms)"
| "endpoints_loop chainName (ep # stats) eps ms =
     endpoints_loop chainName stats (eps @ [endpoint_json ep])
       (RecordEndpointLatency chainName (es_URL ep) (es_LatencyMs ep)
         (RecordEndpointBlockHeight chainName (es_URL ep) (es_BlockHeight ep)
           (RecordEndpointHealth chainName (es_URL ep) (es_Healthy ep) ms)))"

definition HandleChainHealth :: "request \<Rightarrow> response \<times> 'tls server \<Rightarrow> response \<times> 'tls server" where
  "HandleChainHealth rq s =
     (case s of (r, sv) \<Rightarrow>
       let chainName = rqs_Chain rq
       in case GetChain (sv_manager sv) chainName of
            None \<Rightarrow> (send_json 404 (JObject [(''error'', JString ''chain not found'')]) r, sv)
          | Some ch \<Rightarrow>
              (let stats = Chain_Stats ch;
                   healthy = 0 < cs_HealthyEndpoints stats;
                   (eps, ms) = endpoints_loop chainName (cs_Endpoints stats) [] (sv_metrics sv);
                   status = (if \<not> healthy then 503 else 200)
               in (send_json status (JObject
                     [(''chain'', JString chainName), (''chain_id'', json_int (cs_ChainID stats)),
                      (''healthy'', JBool healthy), (''highest_block'', json_int (cs_HighestBlock stats)),
                      (''healthy_endpoints'', json_int (cs_HealthyEndpoints stats)),
                      (''total_endpoints'', json_int (cs_TotalEndpoints stats)),
                      (''endpoints'', JArray eps)]) r,
                   sv\<lparr>sv_metrics := ms\<rparr>)))"

definition chain_json :: "string \<times> ChainStats \<Rightarrow> json" where
  "chain_json ns =
     (case ns of (name, s) \<Rightarrow> JObject
       [(''name'', JString name), (''chain_id'', json_int (cs_ChainID s)),
        (''healthy'', JBool (0 < cs_HealthyEndpoints s)),
        (''healthy_endpoints'', json_int (cs_HealthyEndpoints s)),
        (''total_endpoints'', json_int (cs_TotalEndpoints s)),
        (''block_height'', json_int (cs_HighestBlock s)), (''rpc_url'', JString (CHR ''/'' # name))])"

definition HandleChains :: "response \<times> 'tls server \<Rightarrow> response \<times> 'tls server" where
  "HandleChains s =
     (case s of (r, sv) \<Rightarrow>
       (send_json (rsp_Status r)
          (JObject [(''chains'', JArray (map chain_json (AllStats (sv_manager sv))))]) r, sv))"

section \<open>Middleware\<close>

text \<open>A handler may panic; what it did to the context until then stays.\<close>

type_synonym 'tls handler =
  "response \<times> 'tls server \<Rightarrow> go_error option outcome \<times> response \<times> 'tls server"

definition rate_limit_json :: json where
  "rate_limit_json = JObject
     [(''jsonrpc'', JString ''2.0''),
      (''error'', JObject [(''code'', json_int (- 32005)), (''message'', JString ''Rate limit exceeded'')]),
      (''id'', JNull)]"

definition RateLimit_Middleware :: "time \<Rightarrow> request \<Rightarrow> 'tls handler \<Rightarrow> 'tls handler" where
  "RateLimit_Middleware now rq next s =
     (case s of (r, sv) \<Rightarrow>
       if \<not> rlm_enabled (sv_limiter sv) then next (r, sv)
       else let (ok, rl) = rlm_Allow (sv_limiter sv) now (rqs_IP rq); sv = sv\<lparr>sv_limiter := rl\<rparr>
            in if \<not> ok
               then (Return None, send_json 429 rate_limit_json r,
                     if rqs_Chain rq \<noteq> [] then record_metrics (RecordRateLimitReject (rqs_Chain rq)) sv
                     else sv)
               else next (r, sv))"

text \<open>\<open>LoggingMiddleware\<close> only calls the next handler: its log line is commented out.\<close>

definition LoggingMiddleware :: "'tls handler \<Rightarrow> 'tls handler" where
  "LoggingMiddleware next s = next s"

text \<open>\<open>SendStatus\<close> of fiber also sends the text of the status as the body when there is none.\<close>

definition send_status :: "int \<Rightarrow> string \<Rightarrow> response \<Rightarrow> response" where
  "send_status code msg r =
     r\<lparr>rsp_Status := code, rsp_Body := (if rsp_Body r = BodyBytes [] then BodyBytes msg else rsp_Body r)\<rparr>"

definition CORSMiddleware :: "request \<Rightarrow> 'tls handler \<Rightarrow> 'tls handler" where
  "CORSMiddleware rq next s =
     (case s of (r, sv) \<Rightarrow>
       let r = set_header ''Access-Control-Allow-Headers'' ''Content-Type, Authorization''
             (set_header ''Access-Control-Allow-Methods'' ''GET, POST, OPTIONS''
               (set_header ''Access-Control-Allow-Origin'' ''*'' r))
       in if rqs_Method rq = ''OPTIONS'' then (Return None, send_status 204 ''No Content'' r, sv)
          else next (r, sv))"

definition internal_error_json :: json where
  "internal_error_json = rpcError (- 32603) ''Internal error'' JNull"

definition RecoveryMiddleware :: "request \<Rightarrow> 'tls handler \<Rightarrow> 'tls handler" where
  "RecoveryMiddleware rq next s =
     (case next s of
        (Return err, s') \<Rightarrow> (Return err, s')
      | (Panic e, r, sv) \<Rightarrow>
          (Return None, send_json 500 internal_error_json r,
           if rqs_Chain rq \<noteq> [] then record_metrics (RecordError (rqs_Chain rq) ''panic'') sv else sv))"

section \<open>The proxy's limiter\<close>

definition tb_of :: "RateLimiter \<Rightarrow> TokenBucketLimiter" where
  "tb_of rl =
     \<lparr>tbl_rate = rlm_rate rl, tbl_burst = rlm_burst rl,
      tbl_buckets = (\<lambda>k. map_option (\<lambda>b. \<lparr>tb_tokens = bk_tokens b, tb_lastCheck = bk_lastCheck b\<rparr>)
        (rlm_buckets rl k)),
      tbl_cleanupTick = rlm_cleanupTick rl, tbl_stopped = False\<rparr>"

text \<open>
  The life of the proxy's limiter: requests of clients and clean-up ticks, in the order they take
  the mutex. \<open>as_tbl_op\<close> is the same operation of the token bucket.
\<close>

datatype rlm_op = RlmAllow time string | RlmCleanup time

fun rlm_step :: "RateLimiter \<Rightarrow> rlm_op \<Rightarrow> RateLimiter" where
  "rlm_step rl (RlmAllow t k) = snd (rlm_Allow rl t k)"
| "rlm_step rl (RlmCleanup t) = rlm_cleanup rl t"

fun rlm_verdicts :: "rlm_op list \<Rightarrow> RateLimiter \<Rightarrow> (string \<times> bool) list" where
  "rlm_verdicts [] rl = []"
| "rlm_verdicts (RlmAllow t k # ops) rl =
     (let (ok, rl') = rlm_Allow rl t k in (k, ok) # rlm_verdicts ops rl')"
| "rlm_verdicts (RlmCleanup t # ops) rl = rlm_verdicts ops (rlm_cleanup rl t)"

fun as_tbl_op :: "rlm_op \<Rightarrow> tbl_op" where
  "as_tbl_op (RlmAllow t k) = OpAllow t k 1"
| "as_tbl_op (RlmCleanup t) = OpCleanup t"

fun rlm_in_order :: "time \<Rightarrow> rlm_op list \<Rightarrow> time \<Rightarrow> bool" where
  "rlm_in_order t [] t' = (t \<le> t')"
| "rlm_in_order t (RlmAllow s k # ops) t' = (t \<le> s \<and> rlm_in_order s ops t')"
| "rlm_in_order t (RlmCleanup s # ops) t' = (t \<le> s \<and> rlm_in_order s ops t')"

lemma rlm_Allow_sim:
  assumes "rlm_enabled rl"
  shows "fst (rlm_Allow rl t k) = fst (tb_AllowN (tb_of rl) t k 1)"
    and "tb_of (snd (rlm_Allow rl t k)) = snd (tb_AllowN (tb_of rl) t k 1)"
    and "rlm_enabled (snd (rlm_Allow rl t k))"
  using assms
  by (simp_all add: rlm_Allow_def tb_AllowN_def tb_of_def tb_bucket_def tb_refill_def tb_take_def
      Let_def fun_eq_iff split: option.split)

lemma rlm_cleanup_sim:
  assumes "rlm_enabled rl"
  shows "tb_of (rlm_cleanup rl now) = tb_cleanup (tb_of rl) now" and "rlm_enabled (rlm_cleanup rl now)"
  using assms by (auto simp: tb_of_def rlm_cleanup_def tb_cleanup_def fun_eq_iff split: option.split)

lemma rlm_step_sim:
  assumes "rlm_enabled rl"
  shows "tb_of (rlm_step rl op) = tbl_step (tb_of rl) (as_tbl_op op)" and "rlm_enabled (rlm_step rl op)"
  using rlm_Allow_sim [OF assms] rlm_cleanup_sim [OF assms] by (cases op; simp)+

lemma rlm_run_sim:
  assumes "rlm_enabled rl"
  shows "tb_of (foldl rlm_step rl ops) = foldl tbl_step (tb_of rl) (map as_tbl_op ops)"
  using assms by (induction ops arbitrary: rl) (simp_all add: rlm_step_sim)

lemma rlm_verdicts_sim:
  assumes "rlm_enabled rl"
  shows "rlm_verdicts ops rl = tbl_verdicts (map as_tbl_op ops) (tb_of rl)"
  using assms
proof (induction ops arbitrary: rl)
  case (Cons op ops)
  from Cons.IH [OF rlm_step_sim(2) [OF Cons.prems, of op]] rlm_step_sim(1) [OF Cons.prems, of op]
    rlm_Allow_sim(1) [OF Cons.prems]
  show ?case by (cases op) (simp_all add: Let_def split_def)
qed simp

lemma rlm_in_order_tbl: "rlm_in_order t ops t' \<Longrightarrow> tbl_in_order t (map as_tbl_op ops) t'"
  by (induction t ops t' rule: rlm_in_order.induct) simp_all

lemma as_tbl_op_cleanup: "OpCleanup s = as_tbl_op op \<longleftrightarrow> op = RlmCleanup s"
  by (cases op) auto

text \<open>The requests of client \<open>k\<close>, and how many of them were admitted.\<close>

fun asked_by :: "string \<Rightarrow> rlm_op list \<Rightarrow> nat" where
  "asked_by k [] = 0"
| "asked_by k (RlmAllow t k' # ops) = (if k' = k then 1 else 0) + asked_by k ops"
| "asked_by k (RlmCleanup t # ops) = asked_by k ops"

definition admitted_to :: "string \<Rightarrow> (string \<times> bool) list \<Rightarrow> nat" where
  "admitted_to k vs = length (filter (\<lambda>v. v = (k, True)) vs)"

lemma asked_by_calls: "length (calls_of k (calls_in (map as_tbl_op ops))) = asked_by k ops"
  by (induction k ops rule: asked_by.induct) simp_all

lemma granted_admitted:
  "granted (\<lambda>c. fst (snd c) = k) (calls_in (map as_tbl_op ops)) (tbl_verdicts (map as_tbl_op ops) l) =
     int (admitted_to k (tbl_verdicts (map as_tbl_op ops) l))"
proof (induction ops arbitrary: l)
  case (Cons op ops)
  then show ?case by (cases op) (auto simp: Let_def split_def admitted_to_def)
qed (simp add: admitted_to_def)

section \<open>Metrics the library accepts\<close>

definition metrics_ok :: "metrics \<Rightarrow> bool" where
  "metrics_ok ms = list_all call_ok ms"

lemma metrics_ok_record [simp]:
  "metrics_ok ms \<Longrightarrow> metrics_ok (RecordRequest c m ms)"
  "metrics_ok ms \<Longrightarrow> metrics_ok (RecordRequestDuration c m st x ms)"
  "metrics_ok ms \<Longrightarrow> metrics_ok (RecordEndpointHealth c ep b ms)"
  "metrics_ok ms \<Longrightarrow> metrics_ok (RecordBlockHeight c h ms)"
  "metrics_ok ms \<Longrightarrow> metrics_ok (RecordEndpointBlockHeight c ep h ms)"
  "metrics_ok ms \<Longrightarrow> metrics_ok (RecordEndpointLatency c ep x ms)"
  "metrics_ok ms \<Longrightarrow> metrics_ok (RecordCacheHit c m ms)"
  "metrics_ok ms \<Longrightarrow> metrics_ok (RecordCacheMiss c m ms)"
  "metrics_ok ms \<Longrightarrow> metrics_ok (RecordRateLimitReject c ms)"
  "metrics_ok ms \<Longrightarrow> metrics_ok (RecordHealthyEndpoints c n ms)"
  "metrics_ok ms \<Longrightarrow> metrics_ok (RecordTotalEndpoints c n ms)"
  "metrics_ok ms \<Longrightarrow> metrics_ok (RecordError c e ms)"
  by (simp_all add: metrics_ok_def metrics_defs)

lemma metrics_ok_rpc_cached:
  "metrics_ok (sv_metrics sv) \<Longrightarrow> metrics_ok (sv_metrics (snd (rpc_cached env name req sv)))"
  by (auto simp: rpc_cached_def record_metrics_def Let_def split: prod.split option.split)

lemma metrics_ok_rpc_forward:
  "metrics_ok (sv_metrics sv) \<Longrightarrow>
     metrics_ok (sv_metrics (snd (rpc_forward env name body req ch (r, sv))))"
  by (auto simp: rpc_forward_def record_metrics_def Let_def split: prod.split sum.split)

lemma metrics_ok_HandleRPC:
  assumes "metrics_ok (sv_metrics sv)"
  shows "metrics_ok (sv_metrics (snd (HandleRPC um env rq (r, sv))))"
proof -
  have "metrics_ok (sv_metrics (snd (rpc_cached env name req (record_metrics (RecordRequest c m) sv))))"
    for name req c m
    using assms by (intro metrics_ok_rpc_cached) (simp add: record_metrics_def)
  then show ?thesis
    using assms
    by (auto simp: HandleRPC_def Let_def record_metrics_def split_def metrics_ok_rpc_forward
        split: option.split sum.split)
qed

lemma metrics_ok_health_loop:
  "metrics_ok ms \<Longrightarrow> metrics_ok (snd (snd (health_loop stats ok cm ms)))"
  by (induction stats ok cm ms rule: health_loop.induct) (simp_all add: Let_def)

lemma metrics_ok_endpoints_loop:
  "metrics_ok ms \<Longrightarrow> metrics_ok (snd (endpoints_loop name stats eps ms))"
  by (induction name stats eps ms rule: endpoints_loop.induct) simp_all

lemma health_loop_ok:
  "fst (health_loop stats ok cm ms) = (ok \<and> (\<forall>s\<in>snd ` set stats. 0 < cs_HealthyEndpoints s))"
  by (induction stats ok cm ms rule: health_loop.induct) (auto simp: Let_def)

lemma health_loop_chains:
  "fst (snd (health_loop stats ok cm ms)) =
     cm @ map (\<lambda>(name, s). (name, chain_health_json s)) stats"
  by (induction stats ok cm ms rule: health_loop.induct) (simp_all add: Let_def)

section \<open>Requests\<close>

lemma mc_IsCacheable_enabled: "mc_IsCacheable c m \<Longrightarrow> mc_enabled c"
  by (cases "mc_enabled c") (simp_all add: mc_IsCacheable_def)

lemma GetChain_put:
  "GetChain m name = Some ch \<Longrightarrow> GetChain (put_chain name ch' m) name = Some ch'"
  by (induction m) (auto simp: GetChain_def put_chain_def split: if_splits)

lemma rpc_cached_cases:
  obtains (hit) b where "mc_IsCacheable (sv_cache sv) (rr_Method req)"
      "mc_live (sv_cache sv) (rv_get env) (mc_makeKey name (rr_Method req) (rr_Params req)) = Some b"
      "fst (rpc_cached env name req sv) = Some b"
      "sv_manager (snd (rpc_cached env name req sv)) = sv_manager sv"
  | (miss) "fst (rpc_cached env name req sv) = None"
      "mc_IsCacheable (sv_cache sv) (rr_Method req) \<longrightarrow>
        mc_live (sv_cache sv) (rv_get env) (mc_makeKey name (rr_Method req) (rr_Params req)) = None"
      "sv_manager (snd (rpc_cached env name req sv)) = sv_manager sv"
proof -
  let ?key = "mc_makeKey name (rr_Method req) (rr_Params req)"
  show thesis
  proof (cases "mc_IsCacheable (sv_cache sv) (rr_Method req)")
    case True
    then have "mc_enabled (sv_cache sv)" by (rule mc_IsCacheable_enabled)
    then have get: "fst (mc_Get (sv_cache sv) (rv_get env) name (rr_Method req) (rr_Params req)) =
        mc_live (sv_cache sv) (rv_get env) ?key"
      by (simp add: mc_Get_def mc.look_value)
    show thesis
    proof (cases "mc_live (sv_cache sv) (rv_get env) ?key")
      case None
      then show thesis using True get
        by (intro miss) (simp_all add: rpc_cached_def Let_def split_def record_metrics_def)
    next
      case (Some b)
      then show thesis using True get
        by (intro hit [of b]) (simp_all add: rpc_cached_def Let_def split_def record_metrics_def)
    qed
  next
    case False
    then show thesis by (intro miss) (simp_all add: rpc_cached_def)
  qed
qed

lemma HandleRPC_parsed:
  assumes "GetChain (sv_manager sv) (rqs_Chain rq) = Some ch" and "um (rqs_Body rq) = Inr req"
  shows "HandleRPC um env rq (r, sv) =
    (let sv = record_metrics (RecordRequest (rqs_Chain rq) (rr_Method req)) sv
     in case rpc_cached env (rqs_Chain rq) req sv of
          (Some cached, sv) \<Rightarrow> (send_bytes cached (set_header ''X-Cache'' ''HIT'' r), sv)
        | (None, sv) \<Rightarrow> rpc_forward env (rqs_Chain rq) (rqs_Body rq) req ch (r, sv))"
  using assms by (simp add: HandleRPC_def Let_def)

lemma HandleRPC_hit:
  assumes "GetChain (sv_manager sv) (rqs_Chain rq) = Some ch" and "um (rqs_Body rq) = Inr req"
    and "mc_IsCacheable (sv_cache sv) (rr_Method req)"
    and "mc_live (sv_cache sv) (rv_get env)
      (mc_makeKey (rqs_Chain rq) (rr_Method req) (rr_Params req)) = Some b"
  shows "fst (HandleRPC um env rq (r, sv)) = send_bytes b (set_header ''X-Cache'' ''HIT'' r)"
    and "sv_manager (snd (HandleRPC um env rq (r, sv))) = sv_manager sv"
proof -
  let ?sv = "record_metrics (RecordRequest (rqs_Chain rq) (rr_Method req)) sv"
  have c: "sv_cache ?sv = sv_cache sv" "sv_manager ?sv = sv_manager sv"
    by (simp_all add: record_metrics_def)
  have "fst (rpc_cached env (rqs_Chain rq) req ?sv) = Some b \<and>
      sv_manager (snd (rpc_cached env (rqs_Chain rq) req ?sv)) = sv_manager sv"
    by (rule rpc_cached_cases [of ?sv req env "rqs_Chain rq"]) (use assms(3,4) c in auto)
  then show "fst (HandleRPC um env rq (r, sv)) = send_bytes b (set_header ''X-Cache'' ''HIT'' r)"
    and "sv_manager (snd (HandleRPC um env rq (r, sv))) = sv_manager sv"
    by (simp_all add: HandleRPC_parsed [where um = um, OF assms(1,2)] split_def)
qed

lemma HandleRPC_miss:
  assumes "GetChain (sv_manager sv) (rqs_Chain rq) = Some ch" and "um (rqs_Body rq) = Inr req"
    and "mc_IsCacheable (sv_cache sv) (rr_Method req) \<Longrightarrow>
      mc_live (sv_cache sv) (rv_get env)
        (mc_makeKey (rqs_Chain rq) (rr_Method req) (rr_Params req)) = None"
  obtains sv' where "HandleRPC um env rq (r, sv) =
      rpc_forward env (rqs_Chain rq) (rqs_Body rq) req ch (r, sv')"
    and "sv_manager sv' = sv_manager sv" and "mc_enabled (sv_cache sv') = mc_enabled (sv_cache sv)"
    and "mc_methods (sv_cache sv') = mc_methods (sv_cache sv)"
    and "mc_ttl (sv_cache sv') = mc_ttl (sv_cache sv)"
proof -
  let ?sv = "record_metrics (RecordRequest (rqs_Chain rq) (rr_Method req)) sv"
  let ?sv' = "snd (rpc_cached env (rqs_Chain rq) req ?sv)"
  have c: "sv_cache ?sv = sv_cache sv" "sv_manager ?sv = sv_manager sv"
    by (simp_all add: record_metrics_def)
  have "fst (rpc_cached env (rqs_Chain rq) req ?sv) = None \<and> sv_manager ?sv' = sv_manager sv"
    by (rule rpc_cached_cases [of ?sv req env "rqs_Chain rq"]) (use assms(3) c in auto)
  moreover have "mc_enabled (sv_cache ?sv') = mc_enabled (sv_cache sv) \<and>
      mc_methods (sv_cache ?sv') = mc_methods (sv_cache sv) \<and>
      mc_ttl (sv_cache ?sv') = mc_ttl (sv_cache sv)"
    by (auto simp: rpc_cached_def Let_def split_def record_metrics_def mc_Get_def mc.ttl_look
        split: option.split)
  ultimately show thesis
    by (intro that [of ?sv']) (simp_all add: HandleRPC_parsed [where um = um, OF assms(1,2)] split_def)
qed

lemma rpc_forward_error:
  assumes "ForwardWithRetry ch body 2 (rv_attempt env) = (Inl err, ch')"
  shows "fst (rpc_forward env name body req ch (r, sv)) =
    send_json 502 (rpcError (- 32603) (''Internal error: '' @ error_text err) (rr_ID req)) r"
  using assms by (simp add: rpc_forward_def)

lemma rpc_forward_answer:
  assumes "ForwardWithRetry ch body 2 (rv_attempt env) = (Inr b, ch')"
  shows "fst (rpc_forward env name body req ch (r, sv)) =
      send_bytes b (set_header ''Content-Type'' ''application/json'' (set_header ''X-Cache'' ''MISS'' r))"
    and "sv_manager (snd (rpc_forward env name body req ch (r, sv))) =
      put_chain name ch' (sv_manager sv)"
    and "sv_cache (snd (rpc_forward env name body req ch (r, sv))) =
      (let c = rv_cache env (sv_cache sv)
       in if mc_IsCacheable c (rr_Method req)
          then mc_Set c (rv_set env) name (rr_Method req) (rr_Params req) b else c)"
  using assms by (simp_all add: rpc_forward_def Let_def record_metrics_def)

text \<open>The three answers to a well-formed request for a known chain, whatever the context holds.\<close>

lemma HandleRPC_three:
  assumes "GetChain (sv_manager sv) (rqs_Chain rq) = Some ch" and "um (rqs_Body rq) = Inr req"
  obtains (hit) b where "fst (HandleRPC um env rq (r, sv)) = send_bytes b (set_header ''X-Cache'' ''HIT'' r)"
      "sv_manager (snd (HandleRPC um env rq (r, sv))) = sv_manager sv"
      "mc_live (sv_cache sv) (rv_get env)
        (mc_makeKey (rqs_Chain rq) (rr_Method req) (rr_Params req)) = Some b"
  | (backend) b k ep code d where "fst (HandleRPC um env rq (r, sv)) = send_bytes b
        (set_header ''Content-Type'' ''application/json'' (set_header ''X-Cache'' ''MISS'' r))"
      "k \<le> 2" "at_http (rv_attempt env k) ep (rqs_Body rq) = Response code b d"
  | (failed) err where "fst (ForwardWithRetry ch (rqs_Body rq) 2 (rv_attempt env)) = Inl err"
      "fst (HandleRPC um env rq (r, sv)) =
        send_json 502 (rpcError (- 32603) (''Internal error: '' @ error_text err) (rr_ID req)) r"
proof (cases "mc_IsCacheable (sv_cache sv) (rr_Method req) \<and>
    mc_live (sv_cache sv) (rv_get env) (mc_makeKey (rqs_Chain rq) (rr_Method req) (rr_Params req)) \<noteq> None")
  case True
  then obtain b where "mc_live (sv_cache sv) (rv_get env)
      (mc_makeKey (rqs_Chain rq) (rr_Method req) (rr_Params req)) = Some b" by blast
  with True HandleRPC_hit [where um = um, OF assms, of env b r] show thesis
    by (intro hit) simp_all
next
  case False
  then obtain sv' where h: "HandleRPC um env rq (r, sv) =
      rpc_forward env (rqs_Chain rq) (rqs_Body rq) req ch (r, sv')"
    using HandleRPC_miss [where um = um, OF assms, of env r] by metis
  obtain f ch' where f: "ForwardWithRetry ch (rqs_Body rq) 2 (rv_attempt env) = (f, ch')"
    by fastforce
  show thesis
  proof (cases f)
    case (Inl err)
    with f h rpc_forward_error [of ch "rqs_Body rq" env err ch'] show thesis
      by (intro failed [of err]) simp_all
  next
    case (Inr b)
    with f have "fst (ForwardWithRetry ch (rqs_Body rq) 2 (rv_attempt env)) = Inr b" by simp
    from retry_Inr_from_backend [OF this] obtain k ep code d where
      "k \<le> 2" "at_http (rv_attempt env k) ep (rqs_Body rq) = Response code b d" by auto
    with f h Inr rpc_forward_answer(1) [of ch "rqs_Body rq" env b ch'] show thesis
      by (intro backend [of b k ep code d]) simp_all
  qed
qed

lemma HandleRPC_limiter [simp]: "sv_limiter (snd (HandleRPC um env rq (r, sv))) = sv_limiter sv"
proof -
  have "sv_limiter (snd (rpc_cached env n req sv)) = sv_limiter sv" for n req and sv :: "'a server"
    by (simp add: rpc_cached_def Let_def split_def record_metrics_def split: option.split)
  moreover have "sv_limiter (snd (rpc_forward env n b req ch (r, sv))) = sv_limiter sv"
    for n b req ch and sv :: "'a server"
    by (simp add: rpc_forward_def Let_def split_def record_metrics_def split: sum.split)
  ultimately show ?thesis
    by (simp add: HandleRPC_def Let_def split_def record_metrics_def split: option.split sum.split)
qed

text \<open>A server and a request for the witnesses: the second backend answers with \<open>status\<close>.\<close>

definition sample_attempt :: "int \<Rightarrow> unit attempt" where
  "sample_attempt status = failing_attempt\<lparr>at_http :=
     \<lambda>ep b. if ep = 1 then Response status ''busy'' 1 else DoFails (ErrNew []) 0\<rparr>"

definition sample_env :: "time \<Rightarrow> int \<Rightarrow> unit rpc_env" where
  "sample_env t status = \<lparr>rv_start = t, rv_get = t, rv_set = t, rv_end = t,
     rv_attempt = (\<lambda>_. sample_attempt status), rv_cache = id\<rparr>"

definition sample_server :: "unit server" where
  "sample_server = \<lparr>sv_manager = [(''eth'', sample_chain)],
     sv_cache = NewInMemory \<lparr>cch_Enabled = True, cch_TTL = 60, cch_CacheableMethods = [''m'']\<rparr>,
     sv_limiter = NewRateLimiter \<lparr>rl_Enabled = True, rl_RequestsPerSecond = 0, rl_Burst = 0,
       rl_Strategy = [], rl_PerIP = False\<rparr>,
     sv_metrics = []\<rparr>"

definition sample_request :: "bytes \<Rightarrow> request" where
  "sample_request body = \<lparr>rqs_Method = ''POST'', rqs_Path = ''/eth'', rqs_IP = ''10.0.0.1'',
     rqs_Chain = ''eth'', rqs_Body = body\<rparr>"

text \<open>The body of a sample request is its id.\<close>

definition sample_parse :: "bytes \<Rightarrow> go_error + rpcRequest" where
  "sample_parse body = (if body = [] then Inl (ErrNew ''EOF'')
     else Inr \<lparr>rr_JSONRPC = ''2.0'', rr_Method = ''m'', rr_Params = ''[]'', rr_ID = JString body\<rparr>)"

lemma sample_server_simps [simp]:
  "GetChain (sv_manager sample_server) (rqs_Chain (sample_request body)) = Some sample_chain"
  "GetChain (sv_manager sample_server) ''eth'' = Some sample_chain"
  "mc_IsCacheable (sv_cache sample_server) ''m''"
  "rqs_Body (sample_request body) = body"
  "rqs_Chain (sample_request body) = ''eth''"
  "mc_ttl (sv_cache sample_server) = 60"
  "mc_live (sv_cache sample_server) t key = None"
  by (simp_all add: sample_server_def sample_request_def GetChain_def NewInMemory_def
      mc_IsCacheable_def method_flag_def mc_live_def)

lemma sample_forward:
  "fst (ForwardWithRetry sample_chain ''1'' 2 (\<lambda>_. sample_attempt 503)) = Inr ''busy''"
  unfolding sample_attempt_def by code_simp

lemma health_evaluated:
  assumes "\<forall>c\<in>snd ` set (sv_manager sv). chain_ok c"
  shows "let (r, sv') = HandleHealth (new_response, sv)
   in rsp_Status r = (if \<forall>c\<in>snd ` set (sv_manager sv). \<exists>e\<in>set (endpoints c). healthy e then 200 else 503) \<and>
      rsp_Body r = BodyJSON (JObject
        [(''status'', JString (if rsp_Status r = 200 then ''healthy'' else ''degraded'')),
         (''chains'', JObject (map (\<lambda>(name, c). (name, chain_health_json (Chain_Stats c))) (sv_manager sv)))]) \<and>
      sv_manager sv' = sv_manager sv \<and> sv_cache sv' = sv_cache sv"
proof -
  let ?l = "health_loop (AllStats (sv_manager sv)) True [] (sv_metrics sv)"
  have h: "0 < cs_HealthyEndpoints (Chain_Stats c) \<longleftrightarrow> (\<exists>e\<in>set (endpoints c). healthy e)"
    if "c \<in> snd ` set (sv_manager sv)" for c
  proof -
    have "chain_ok c" using that assms by blast
    then show ?thesis by (simp add: Chain_Stats_def HealthyEndpoints_count filter_empty_conv)
  qed
  have "snd ` set (AllStats (sv_manager sv)) = Chain_Stats ` snd ` set (sv_manager sv)"
    by (force simp: AllStats_def)
  with h have ok: "fst ?l \<longleftrightarrow> (\<forall>c\<in>snd ` set (sv_manager sv). \<exists>e\<in>set (endpoints c). healthy e)"
    by (simp add: health_loop_ok)
  have c: "fst (snd ?l) = map (\<lambda>(name, c). (name, chain_health_json (Chain_Stats c))) (sv_manager sv)"
    by (simp add: health_loop_chains AllStats_def case_prod_unfold)
  show ?thesis
    unfolding HandleHealth_def Let_def split_def fst_conv snd_conv
    by (simp add: send_json_def set_header_def ok c [unfolded split_def])
qed

lemma rpc_cached_metrics:
  assumes "rpc_cached env name req (record_metrics (RecordRequest name (rr_Method req)) sv) = (cr, sv1)"
  shows "cr = Some b \<Longrightarrow> mc_IsCacheable (sv_cache sv) (rr_Method req) \<and>
      sv_metrics sv1 = sv_metrics sv @ [Inc RequestsTotal [name, rr_Method req],
        Inc CacheHits [name, rr_Method req],
        Observe RequestDuration [name, rr_Method req, ''cache_hit''] (rpc_seconds env)]"
    and "cr = None \<Longrightarrow> sv_metrics sv1 = sv_metrics sv @ [Inc RequestsTotal [name, rr_Method req]] @
      (if mc_IsCacheable (sv_cache sv) (rr_Method req) then [Inc CacheMisses [name, rr_Method req]] else [])"
  using assms
  by (auto simp: rpc_cached_def Let_def split_def record_metrics_def metrics_defs
      split: if_splits option.splits)

text \<open>How a well-formed request for a known chain is counted, for each of its three answers.\<close>

lemma HandleRPC_metrics:
  assumes "GetChain (sv_manager sv) (rqs_Chain rq) = Some ch" and "um (rqs_Body rq) = Inr req"
  obtains (hit) b x sv' where "HandleRPC um env rq (r, sv) =
        (send_bytes b (set_header ''X-Cache'' ''HIT'' r), sv')"
      "mc_IsCacheable (sv_cache sv) (rr_Method req)"
      "sv_metrics sv' = sv_metrics sv @ [Inc RequestsTotal [rqs_Chain rq, rr_Method req],
        Inc CacheHits [rqs_Chain rq, rr_Method req],
        Observe RequestDuration [rqs_Chain rq, rr_Method req, ''cache_hit''] x]"
  | (miss) r' x st es sv' where "HandleRPC um env rq (r, sv) = (r', sv')"
      "rsp_Headers r' ''X-Cache'' = Some ''MISS'' \<and> rsp_Status r' = rsp_Status r \<and> es = [] \<or>
       rsp_Headers r' ''X-Cache'' = rsp_Headers r ''X-Cache'' \<and> rsp_Status r' = 502 \<and>
         es = [Inc ErrorsTotal [rqs_Chain rq, ''forward_error'']]"
      "sv_metrics sv' = sv_metrics sv @ [Inc RequestsTotal [rqs_Chain rq, rr_Method req]] @
        (if mc_IsCacheable (sv_cache sv) (rr_Method req)
         then [Inc CacheMisses [rqs_Chain rq, rr_Method req]] else []) @ es @
        [Observe RequestDuration [rqs_Chain rq, rr_Method req, st] x]"
proof -
  obtain cr sv1 where c: "rpc_cached env (rqs_Chain rq) req
      (record_metrics (RecordRequest (rqs_Chain rq) (rr_Method req)) sv) = (cr, sv1)" by fastforce
  obtain fr ch' where f: "ForwardWithRetry ch (rqs_Body rq) 2 (rv_attempt env) = (fr, ch')" by fastforce
  note out = HandleRPC_parsed [where um = um, OF assms, of env r, unfolded Let_def c]
  note ms = rpc_cached_metrics [OF c]
  show thesis
  proof (cases cr)
    case (Some b)
    note m = ms(1) [OF Some]
    from out Some have "HandleRPC um env rq (r, sv) = (send_bytes b (set_header ''X-Cache'' ''HIT'' r), sv1)"
      by simp
    from hit [OF this conjunct1 [OF m] conjunct2 [OF m]] show thesis .
  next
    case None
    obtain r' sv' where fw: "rpc_forward env (rqs_Chain rq) (rqs_Body rq) req ch (r, sv1) = (r', sv')"
      by fastforce
    with out None have h: "HandleRPC um env rq (r, sv) = (r', sv')" by simp
    show thesis
    proof (cases fr)
      case (Inl err)
      with fw f ms(2) [OF None] show thesis
        by (intro miss [OF h, of "[Inc ErrorsTotal [rqs_Chain rq, ''forward_error'']]" "''error''" "rpc_seconds env"])
          (auto simp: rpc_forward_def record_metrics_def metrics_defs send_json_def set_header_def)
    next
      case (Inr b)
      with fw f ms(2) [OF None] show thesis
        by (intro miss [OF h, of "[]" "''success''" "rpc_seconds env"])
          (auto simp: rpc_forward_def Let_def record_metrics_def metrics_defs send_bytes_def set_header_def)
    qed
  qed
qed

text \<open>What a request that was forwarded with success leaves behind.\<close>

lemma HandleRPC_stores:
  assumes "GetChain (sv_manager sv) (rqs_Chain rq) = Some ch" and "um (rqs_Body rq) = Inr req"
    and "mc_IsCacheable (sv_cache sv) (rr_Method req)"
    and "mc_live (sv_cache sv) (rv_get env)
      (mc_makeKey (rqs_Chain rq) (rr_Method req) (rr_Params req)) = None"
    and "ForwardWithRetry ch (rqs_Body rq) 2 (rv_attempt env) = (Inr b, ch')" and "rv_cache env = id"
  shows "rsp_Body (fst (HandleRPC um env rq (r, sv))) = BodyBytes b"
    and "GetChain (sv_manager (snd (HandleRPC um env rq (r, sv)))) (rqs_Chain rq) = Some ch'"
    and "mc_IsCacheable (sv_cache (snd (HandleRPC um env rq (r, sv)))) (rr_Method req)"
    and "t \<le> rv_set env + mc_ttl (sv_cache sv) \<Longrightarrow>
      mc_live (sv_cache (snd (HandleRPC um env rq (r, sv)))) t
        (mc_makeKey (rqs_Chain rq) (rr_Method req) (rr_Params req)) = Some b"
proof -
  let ?sv1 = "snd (HandleRPC um env rq (r, sv))"
  let ?key = "mc_makeKey (rqs_Chain rq) (rr_Method req) (rr_Params req)"
  obtain sv' where h: "HandleRPC um env rq (r, sv) =
      rpc_forward env (rqs_Chain rq) (rqs_Body rq) req ch (r, sv')"
    and m: "sv_manager sv' = sv_manager sv" and e: "mc_enabled (sv_cache sv') = mc_enabled (sv_cache sv)"
    and ms: "mc_methods (sv_cache sv') = mc_methods (sv_cache sv)"
    and t: "mc_ttl (sv_cache sv') = mc_ttl (sv_cache sv)"
    using HandleRPC_miss [where um = um, OF assms(1,2,4), of r] by metis
  note ans = rpc_forward_answer [OF assms(5), of "rqs_Chain rq" req r sv', folded h]
  have en: "mc_enabled (sv_cache sv)" using assms(3) by (rule mc_IsCacheable_enabled)
  have cb: "mc_IsCacheable (sv_cache sv') (rr_Method req)"
    using assms(3) by (simp only: mc_IsCacheable_def e ms)
  have c1: "sv_cache ?sv1 = mc_store (sv_cache sv') (rv_set env) ?key b"
    using ans(3) cb en e by (simp add: assms(6) mc_Set_def)
  show "rsp_Body (fst (HandleRPC um env rq (r, sv))) = BodyBytes b"
    using ans(1) by (simp add: send_bytes_def)
  show "GetChain (sv_manager ?sv1) (rqs_Chain rq) = Some ch'"
    using assms(1) by (simp add: ans(2) m GetChain_put)
  show "mc_IsCacheable (sv_cache ?sv1) (rr_Method req)"
    using cb by (simp add: c1 mc_IsCacheable_iff mc_store_def)
  show "mc_live (sv_cache ?sv1) t ?key = Some b" if "t \<le> rv_set env + mc_ttl (sv_cache sv)"
    using that t by (simp add: c1 mc.store_live)
qed

section \<open>Properties\<close>

text \<open>
  C7. Every answer to a well-formed request for a known chain is one of three: the bytes the cache
  holds for it, with no chain touched; the unaltered body some backend returned for this
  request in one of three attempts; or a 502 that carries the request's id and the error.
\<close>

theorem rpc_answer:
  assumes "GetChain (sv_manager sv) (rqs_Chain rq) = Some ch" and "um (rqs_Body rq) = Inr req"
  shows "let (r, sv') = HandleRPC um env rq (new_response, sv)
    in (rsp_Status r = 200 \<and> (\<exists>b. rsp_Body r = BodyBytes b \<and>
          (rsp_Headers r ''X-Cache'' = Some ''HIT'' \<and> sv_manager sv' = sv_manager sv \<and>
             mc_live (sv_cache sv) (rv_get env)
               (mc_makeKey (rqs_Chain rq) (rr_Method req) (rr_Params req)) = Some b \<or>
           rsp_Headers r ''X-Cache'' = Some ''MISS'' \<and>
             (\<exists>k ep code d. k \<le> 2 \<and> at_http (rv_attempt env k) ep (rqs_Body rq) = Response code b d)))) \<or>
       (rsp_Status r = 502 \<and> (\<exists>err. fst (ForwardWithRetry ch (rqs_Body rq) 2 (rv_attempt env)) = Inl err \<and>
          rsp_Body r = BodyJSON (rpcError (- 32603) (''Internal error: '' @ error_text err) (rr_ID req))))"
proof (cases rule: HandleRPC_three [where um = um and env = env and r = new_response, OF assms, case_names hit backend failed])
  case (hit b)
  then show ?thesis by (simp add: split_def send_bytes_def set_header_def new_response_def)
next
  case (backend b k ep code d)
  from backend(2,3) have "\<exists>k ep code d. k \<le> 2 \<and>
      at_http (rv_attempt env k) ep (rqs_Body rq) = Response code b d" by blast
  with backend(1) show ?thesis by (simp add: split_def send_bytes_def set_header_def new_response_def)
next
  case (failed err)
  then show ?thesis by (simp add: split_def send_json_def set_header_def)
qed

theorem rpc_answer_witness:
  "rsp_Status (fst (HandleRPC sample_parse (sample_env 100 503) (sample_request ''1'')
     (new_response, sample_server))) \<in> {200, 502}"
proof -
  have "sample_parse (rqs_Body (sample_request ''1'')) = Inr \<lparr>rr_JSONRPC = ''2.0'',
      rr_Method = ''m'', rr_Params = ''[]'', rr_ID = JString ''1''\<rparr>"
    by (simp add: sample_parse_def)
  from rpc_answer [where um = sample_parse, OF sample_server_simps(1) this, of "sample_env 100 503"]
  show ?thesis by (auto simp: Let_def split_def)
qed

text \<open>
  A request for an unknown chain is answered 404 and an unparsable one 400; neither touches a
  chain or the cache, and only the latter is counted as an error.
\<close>

lemma rpc_rejects:
  "let (r, sv') = HandleRPC um env rq (new_response, sv); name = rqs_Chain rq
   in (GetChain (sv_manager sv) name = None \<longrightarrow> rsp_Status r = 404 \<and> sv' = sv) \<and>
      (\<forall>ch err. GetChain (sv_manager sv) name = Some ch \<and> um (rqs_Body rq) = Inl err \<longrightarrow>
         rsp_Status r = 400 \<and> rsp_Body r = BodyJSON (rpcError (- 32700) ''Parse error'' JNull) \<and>
         sv_manager sv' = sv_manager sv \<and> sv_cache sv' = sv_cache sv \<and>
         counted ErrorsTotal [name, ''parse_error''] (sv_metrics sv') =
           Suc (counted ErrorsTotal [name, ''parse_error''] (sv_metrics sv)))"
  by (auto simp: HandleRPC_def Let_def send_json_def set_header_def record_metrics_def
      RecordError_def split: option.split)

text \<open>
  C13. What a backend answered to a cacheable request, whatever its status code, is what every
  later request for the same chain, method and parameters gets until the entry is \<open>ttl\<close> old,
  without a backend being asked: byte for byte, hence with the id of the first request.
\<close>

theorem cached_answer_reused:
  assumes "GetChain (sv_manager sv) (rqs_Chain rq) = Some ch" and "rqs_Chain rq' = rqs_Chain rq"
    and "um (rqs_Body rq) = Inr req" and "um (rqs_Body rq') = Inr req'"
    and "rr_Method req' = rr_Method req" and "rr_Params req' = rr_Params req"
    and "mc_IsCacheable (sv_cache sv) (rr_Method req)"
    and "mc_live (sv_cache sv) (rv_get env)
      (mc_makeKey (rqs_Chain rq) (rr_Method req) (rr_Params req)) = None"
    and "ForwardWithRetry ch (rqs_Body rq) 2 (rv_attempt env) = (Inr b, ch')" and "rv_cache env = id"
    and "rv_get env' \<le> rv_set env + mc_ttl (sv_cache sv)"
  shows "let sv1 = snd (HandleRPC um env rq (new_response, sv));
             (r', sv2) = HandleRPC um env' rq' (new_response, sv1)
    in rsp_Body (fst (HandleRPC um env rq (new_response, sv))) = BodyBytes b \<and>
       rsp_Status r' = 200 \<and> rsp_Body r' = BodyBytes b \<and>
       rsp_Headers r' ''X-Cache'' = Some ''HIT'' \<and> sv_manager sv2 = sv_manager sv1"
proof -
  let ?sv1 = "snd (HandleRPC um env rq (new_response, sv))"
  note st = HandleRPC_stores [where um = um and r = new_response, OF assms(1,3,7-10)]
  have "fst (HandleRPC um env' rq' (new_response, ?sv1)) =
        send_bytes b (set_header ''X-Cache'' ''HIT'' new_response) \<and>
      sv_manager (snd (HandleRPC um env' rq' (new_response, ?sv1))) = sv_manager ?sv1"
    using HandleRPC_hit [where um = um and rq = rq' and sv = ?sv1 and ch = ch' and req = req' and env = env'
        and b = b and r = new_response] assms(2,4-6) st(2,3) st(4) [OF assms(11)] by simp
  then show ?thesis
    using st(1) by (simp add: Let_def split_def send_bytes_def set_header_def new_response_def)
qed

theorem cached_answer_reused_witness:
  "let sv1 = snd (HandleRPC sample_parse (sample_env 100 503) (sample_request ''1'') (new_response, sample_server))
   in rsp_Body (fst (HandleRPC sample_parse (sample_env 160 200) (sample_request ''2'') (new_response, sv1))) =
      BodyBytes ''busy''"
proof -
  have a: "rv_attempt (sample_env 100 503) = (\<lambda>_. sample_attempt 503)"
    by (simp add: sample_env_def)
  define ch' where "ch' = snd (ForwardWithRetry sample_chain ''1'' 2 (\<lambda>_. sample_attempt 503))"
  have f: "ForwardWithRetry sample_chain (rqs_Body (sample_request ''1'')) 2
      (rv_attempt (sample_env 100 503)) = (Inr ''busy'', ch')"
    unfolding ch'_def a sample_server_simps(4) sample_forward [symmetric] by (rule prod.collapse [symmetric])
  let ?q = "\<lambda>i. \<lparr>rr_JSONRPC = ''2.0'', rr_Method = ''m'', rr_Params = ''[]'', rr_ID = JString i\<rparr>"
  have "let sv1 = snd (HandleRPC sample_parse (sample_env 100 503) (sample_request ''1'') (new_response, sample_server));
             (r', sv2) = HandleRPC sample_parse (sample_env 160 200) (sample_request ''2'') (new_response, sv1)
    in rsp_Body (fst (HandleRPC sample_parse (sample_env 100 503) (sample_request ''1'') (new_response, sample_server)))
         = BodyBytes ''busy'' \<and>
       rsp_Status r' = 200 \<and> rsp_Body r' = BodyBytes ''busy'' \<and>
       rsp_Headers r' ''X-Cache'' = Some ''HIT'' \<and> sv_manager sv2 = sv_manager sv1"
    by (rule cached_answer_reused [where req = "?q ''1''" and req' = "?q ''2''", OF sample_server_simps(1) _ _ _ _ _ _ _ f])
      (simp_all add: sample_parse_def sample_env_def)
  then show ?thesis by (simp add: Let_def split_def)
qed

text \<open>
  C19. The proxy's own limiter is the token bucket of \<open>internal/ratelimit\<close> for single requests:
  after any sequence of requests and clean-up ticks an enabled one holds the same buckets, and
  it has given every client the same verdicts. So the requests of a client that it admits are
  bounded by the burst and the rate, whatever other clients do; with clean-up ticks provided
  the burst is earned in ten minutes.
\<close>

theorem proxy_limiter_is_token_bucket:
  assumes "rl_Enabled cfg"
  shows "let rl = NewRateLimiter cfg; rate = float64_of_int (rl_RequestsPerSecond cfg);
       tb = NewTokenBucketLimiter rate (rl_Burst cfg)
    in tb_of (foldl rlm_step rl ops) = foldl tbl_step tb (map as_tbl_op ops) \<and>
       rlm_verdicts ops rl = tbl_verdicts (map as_tbl_op ops) tb \<and>
       (0 \<le> rl_RequestsPerSecond cfg \<and> 0 \<le> rl_Burst cfg \<and> rl_Burst cfg < 2 ^ 53 \<and>
        rlm_in_order t ops t' \<and>
        ((\<forall>s. RlmCleanup s \<notin> set ops) \<or> of_int (rl_Burst cfg) \<le> 600 * rate) \<longrightarrow>
        of_nat (admitted_to k (rlm_verdicts ops rl)) \<le>
          of_int (rl_Burst cfg) + earned rate (t' - t) +
          2 * of_int (rl_Burst cfg) / 2 ^ 53 * of_nat (asked_by k ops))"
proof -
  let ?rl = "NewRateLimiter cfg" and ?r = "float64_of_int (rl_RequestsPerSecond cfg)"
  let ?tb = "NewTokenBucketLimiter ?r (rl_Burst cfg)" and ?ops = "map as_tbl_op ops"
  have e: "rlm_enabled ?rl" and tb: "tb_of ?rl = ?tb"
    using assms by (simp_all add: NewRateLimiter_def tb_of_def NewTokenBucketLimiter_def fun_eq_iff)
  have bound: "of_nat (admitted_to k (tbl_verdicts ?ops ?tb)) \<le>
      of_int (rl_Burst cfg) + earned ?r (t' - t) +
      2 * of_int (rl_Burst cfg) / 2 ^ 53 * of_nat (asked_by k ops)"
    if "0 \<le> rl_RequestsPerSecond cfg" "0 \<le> rl_Burst cfg" "rl_Burst cfg < 2 ^ 53"
      "rlm_in_order t ops t'" "(\<forall>s. RlmCleanup s \<notin> set ops) \<or> of_int (rl_Burst cfg) \<le> 600 * ?r"
  proof -
    have "0 \<le> ?r" using that(1) by (simp add: float64_of_int_def)
    moreover have "OpCleanup s \<in> set ?ops \<Longrightarrow> RlmCleanup s \<in> set ops" for s
      by (auto simp: as_tbl_op_cleanup)
    with that(5) have "cleanup_harmless ?r (rl_Burst cfg) ?ops"
      unfolding cleanup_harmless_def by blast
    ultimately have "of_int (granted (\<lambda>c. fst (snd c) = k) (calls_in ?ops) (tbl_verdicts ?ops ?tb)) \<le>
        of_int (rl_Burst cfg) + earned ?r (t' - t) +
        2 * of_int (rl_Burst cfg) * ulp * of_nat (length (calls_of k (calls_in ?ops)))"
      using that(2,3) rlm_in_order_tbl [OF that(4)] by (intro token_bucket_granted)
    then show ?thesis by (simp add: granted_admitted asked_by_calls)
  qed
  note run = rlm_run_sim [OF e, of ops, unfolded tb] and ver = rlm_verdicts_sim [OF e, of ops, unfolded tb]
  show ?thesis unfolding Let_def ver using run bound by blast
qed

theorem proxy_limiter_is_token_bucket_witness:
  "let ops = [RlmAllow 0 ''a'', RlmCleanup 0, RlmAllow 0 ''a''];
       cfg = \<lparr>rl_Enabled = True, rl_RequestsPerSecond = 10, rl_Burst = 1, rl_Strategy = [], rl_PerIP = True\<rparr>
   in of_nat (admitted_to ''a'' (rlm_verdicts ops (NewRateLimiter cfg))) < (2::rat)"
proof -
  let ?cfg = "\<lparr>rl_Enabled = True, rl_RequestsPerSecond = 10, rl_Burst = 1, rl_Strategy = [], rl_PerIP = True\<rparr>"
  let ?ops = "[RlmAllow 0 ''a'', RlmCleanup 0, RlmAllow 0 ''a'']"
  have "of_nat (admitted_to ''a'' (rlm_verdicts ?ops (NewRateLimiter ?cfg))) \<le>
      of_int (rl_Burst ?cfg) + earned (float64_of_int (rl_RequestsPerSecond ?cfg)) (0 - 0) +
      2 * of_int (rl_Burst ?cfg) / 2 ^ 53 * of_nat (asked_by ''a'' ?ops)"
    using proxy_limiter_is_token_bucket [of ?cfg ?ops 0 0 "''a''"] unfolding Let_def by fastforce
  also have "\<dots> < 2" by (simp add: earned_def)
  finally show ?thesis unfolding Let_def .
qed

text \<open>
  C23. The counters are exact: a well-formed request for a known chain counts once in
  \<open>requests_total\<close>, exactly once as a hit or a miss when its method is cacheable and never
  otherwise, and once as a forward error exactly when it is answered 502. A request that does
  not parse makes the one call that counts a parse error, one for an unknown chain makes none.
  On no path does a handler, or the limiter or the recovery around a handler that does not,
  make a call that the metrics library would answer with a panic for its number of labels or
  the kind of its vector.
\<close>

theorem rpc_metrics_exact:
  "let (r, sv') = HandleRPC um env rq (new_response, sv); name = rqs_Chain rq;
       n = (\<lambda>v ls. int (counted v ls (sv_metrics sv')) - int (counted v ls (sv_metrics sv)));
       keeps = (\<lambda>h. \<forall>s. metrics_ok (sv_metrics (snd s)) \<longrightarrow> metrics_ok (sv_metrics (snd (snd (h s)))))
    in (case GetChain (sv_manager sv) name of
          None \<Rightarrow> sv_metrics sv' = sv_metrics sv
        | Some ch \<Rightarrow>
            (case um (rqs_Body rq) of
               Inl err \<Rightarrow> sv_metrics sv' = sv_metrics sv @ [Inc ErrorsTotal [name, ''parse_error'']]
             | Inr req \<Rightarrow>
                 n RequestsTotal [name, rr_Method req] = 1 \<and>
                 n CacheHits [name, rr_Method req] + n CacheMisses [name, rr_Method req] =
                   of_bool (mc_IsCacheable (sv_cache sv) (rr_Method req)) \<and>
                 n CacheHits [name, rr_Method req] = of_bool (rsp_Headers r ''X-Cache'' = Some ''HIT'') \<and>
                 n ErrorsTotal [name, ''forward_error''] = of_bool (rsp_Status r = 502))) \<and>
       keeps (\<lambda>s. (Return None, HandleRPC um env rq s)) \<and>
       keeps (\<lambda>s. (Return None, HandleHealth s)) \<and>
       keeps (\<lambda>s. (Return None, HandleChainHealth rq s)) \<and>
       keeps (\<lambda>s. (Return None, HandleChains s)) \<and>
       (\<forall>h. keeps h \<longrightarrow> keeps (RateLimit_Middleware now rq h) \<and> keeps (CORSMiddleware rq h) \<and>
          keeps (RecoveryMiddleware rq h))"
proof -
  let ?out = "HandleRPC um env rq (new_response, sv)"
  let ?keeps = "\<lambda>h :: 'a handler. \<forall>s. metrics_ok (sv_metrics (snd s)) \<longrightarrow> metrics_ok (sv_metrics (snd (snd (h s))))"
  have k: "?keeps (\<lambda>s. (Return None, HandleRPC um env rq s))" "?keeps (\<lambda>s. (Return None, HandleHealth s))"
    "?keeps (\<lambda>s. (Return None, HandleChainHealth rq s))" "?keeps (\<lambda>s. (Return None, HandleChains s))"
    by (auto simp: metrics_ok_HandleRPC HandleHealth_def HandleChainHealth_def HandleChains_def Let_def
        split_def metrics_ok_health_loop metrics_ok_endpoints_loop split: option.split)
  have m: "?keeps h \<longrightarrow> ?keeps (RateLimit_Middleware now rq h) \<and> ?keeps (CORSMiddleware rq h) \<and>
      ?keeps (RecoveryMiddleware rq h)" for h
    by (auto simp: RateLimit_Middleware_def CORSMiddleware_def RecoveryMiddleware_def Let_def split_def
        record_metrics_def split: outcome.split)
  have c: "case GetChain (sv_manager sv) (rqs_Chain rq) of
      None \<Rightarrow> sv_metrics (snd ?out) = sv_metrics sv
    | Some ch \<Rightarrow>
        (case um (rqs_Body rq) of
           Inl err \<Rightarrow> sv_metrics (snd ?out) = sv_metrics sv @ [Inc ErrorsTotal [rqs_Chain rq, ''parse_error'']]
         | Inr req \<Rightarrow>
             (let n = (\<lambda>v ls. int (counted v ls (sv_metrics (snd ?out))) - int (counted v ls (sv_metrics sv)));
                  ls = [rqs_Chain rq, rr_Method req]
              in n RequestsTotal ls = 1 \<and>
                 n CacheHits ls + n CacheMisses ls = of_bool (mc_IsCacheable (sv_cache sv) (rr_Method req)) \<and>
                 n CacheHits ls = of_bool (rsp_Headers (fst ?out) ''X-Cache'' = Some ''HIT'') \<and>
                 n ErrorsTotal [rqs_Chain rq, ''forward_error''] = of_bool (rsp_Status (fst ?out) = 502)))"
  proof (cases "GetChain (sv_manager sv) (rqs_Chain rq)")
    case None
    then show ?thesis by (simp add: HandleRPC_def)
  next
    case ch: (Some ch)
    show ?thesis
    proof (cases "um (rqs_Body rq)")
      case (Inl err)
      with ch show ?thesis by (simp add: HandleRPC_def record_metrics_def metrics_defs)
    next
      case (Inr req)
      show ?thesis
        by (rule HandleRPC_metrics [where um = um, OF ch Inr, of env new_response])
          (auto simp: ch Inr Let_def split_def new_response_def send_bytes_def set_header_def)
    qed
  qed
  show ?thesis using c k m unfolding Let_def split_def by blast
qed

theorem rpc_metrics_exact_witness:
  "counted RequestsTotal [''eth'', ''m''] (sv_metrics (snd (HandleRPC sample_parse (sample_env 0 200)
     (sample_request ''1'') (new_response, sample_server)))) = 1 \<and>
   sv_metrics (snd (HandleRPC sample_parse (sample_env 0 200) (sample_request []) (new_response, sample_server))) =
     [Inc ErrorsTotal [''eth'', ''parse_error'']]"
proof -
  have "sv_metrics sample_server = []" by (simp add: sample_server_def)
  then show ?thesis
    using conjunct1 [OF rpc_metrics_exact [of sample_parse "sample_env 0 200" "sample_request ''1''" sample_server,
        unfolded Let_def split_def]]
      conjunct1 [OF rpc_metrics_exact [of sample_parse "sample_env 0 200" "sample_request []" sample_server,
        unfolded Let_def split_def]]
    by (simp add: sample_parse_def)
qed

end
