(* ===== verification/Watcher.thy ===== *)
theory Watcher
  imports Config
begin

text \<open>
  \<open>internal/config/watcher.go\<close>: the debounced reload of the configuration file. The file
  notifications come from a library; an event is its name and operation bits, and the bits
  for writing and creating are arguments. \<open>load t\<close> is what \<open>Load\<close> gives when the file is read
  at time \<open>t\<close>. Callbacks are known by name; the calls made to them are recorded with their
  arguments, as the watcher only logs what they return. A timer armed by \<open>time.AfterFunc\<close> runs
  its function at its deadline.
\<close>

unbundle bit_operations_syntax

section \<open>State and operations\<close>

record 'cb Watcher =
  w_configPath :: string
  w_config :: Config
  w_callbacks :: "'cb list"
  w_debounce :: duration
  w_stopped :: bool
  w_calls :: "('cb \<times> Config \<times> Config) list"

definition NewWatcher ::
  "go_error option \<Rightarrow> (string \<Rightarrow> go_error option) \<Rightarrow> (string \<Rightarrow> string) \<Rightarrow> string \<Rightarrow> Config \<Rightarrow>
     go_error + 'cb Watcher" where
  "NewWatcher newErr add Dir configPath initialConfig =
     (case newErr of
        Some err \<Rightarrow> Inl err
      | None \<Rightarrow>
          (case add (Dir configPath) of
             Some err \<Rightarrow> Inl err
           | None \<Rightarrow> Inr \<lparr>w_configPath = configPath, w_config = initialConfig, w_callbacks = [],
               w_debounce = 500000000, w_stopped = False, w_calls = []\<rparr>))"

definition OnReload :: "'cb Watcher \<Rightarrow> 'cb \<Rightarrow> 'cb Watcher" where
  "OnReload w cb = w\<lparr>w_callbacks := w_callbacks w @ [cb]\<rparr>"

text \<open>The swap of the configuration and the calls that follow it.\<close>

definition install :: "Config \<Rightarrow> 'cb Watcher \<Rightarrow> 'cb Watcher" where
  "install newConfig w =
     (let oldConfig = w_config w
      in w\<lparr>w_config := newConfig,
           w_calls := w_calls w @ map (\<lambda>cb. (cb, oldConfig, newConfig)) (w_callbacks w)\<rparr>)"

definition reload :: "(go_error + Config) outcome \<Rightarrow> 'cb Watcher \<Rightarrow> 'cb Watcher outcome" where
  "reload loaded w =
     (case loaded of
        Panic e \<Rightarrow> Panic e
      | Return (Inl err) \<Rightarrow> Return w
      | Return (Inr newConfig) \<Rightarrow> Return (install newConfig w))"

definition ForceReload ::
  "(go_error + Config) outcome \<Rightarrow> 'cb Watcher \<Rightarrow> (go_error option \<times> 'cb Watcher) outcome" where
  "ForceReload loaded w =
     (case loaded of
        Panic e \<Rightarrow> Panic e
      | Return (Inl err) \<Rightarrow> Return (Some err, w)
      | Return (Inr newConfig) \<Rightarrow> Return (None, install newConfig w))"

text \<open>Closing a closed channel panics; \<open>closeErr\<close> is what closing the notifications gives.\<close>

definition Watcher_Stop ::
  "go_error option \<Rightarrow> 'cb Watcher \<Rightarrow> (go_error option \<times> 'cb Watcher) outcome" where
  "Watcher_Stop closeErr w =
     (if w_stopped w then Panic ''close of closed channel''
      else Return (closeErr, w\<lparr>w_stopped := True\<rparr>))"

text \<open>\<open>filepath.Base\<close>\<close>

definition Base :: "string \<Rightarrow> string" where
  "Base path =
     (if path = [] then ''.''
      else
        let stripped = dropWhile (\<lambda>c. c = CHR ''/'') (rev path);
            b = rev (takeWhile (\<lambda>c. c \<noteq> CHR ''/'') stripped)
        in if b = [] then ''/'' else b)"

section \<open>The watch loop\<close>

record fs_event =
  ev_Name :: string
  ev_Op :: "32 word"

datatype watch_event =
    Events fs_event
  | EventsClosed
  | Errors go_error
  | ErrorsClosed
  | StopCh
  | Quiet

text \<open>The state of the goroutine \<open>watch\<close>: the pending timer, and whether it still runs.\<close>

record 'cb watch_state =
  ws_watcher :: "'cb Watcher"
  ws_timer :: "time option"
  ws_running :: bool

definition handled :: "32 word \<Rightarrow> 32 word \<Rightarrow> string \<Rightarrow> fs_event \<Rightarrow> bool" where
  "handled wr cr filename event \<longleftrightarrow>
     Base (ev_Name event) = filename \<and> ev_Op event AND (wr OR cr) \<noteq> 0"

text \<open>Stopping the pending timer and arming a new one.\<close>

definition debounce :: "time \<Rightarrow> 'cb watch_state \<Rightarrow> 'cb watch_state" where
  "debounce now s = s\<lparr>ws_timer := Some (now + w_debounce (ws_watcher s))\<rparr>"

fun on_event ::
  "32 word \<Rightarrow> 32 word \<Rightarrow> time \<Rightarrow> watch_event \<Rightarrow> 'cb watch_state \<Rightarrow> 'cb watch_state" where
  "on_event wr cr now (Events event) s =
     (if \<not> handled wr cr (Base (w_configPath (ws_watcher s))) event then s else debounce now s)"
| "on_event wr cr now EventsClosed s = s\<lparr>ws_running := False\<rparr>"
| "on_event wr cr now (Errors err) s = s"
| "on_event wr cr now ErrorsClosed s = s\<lparr>ws_running := False\<rparr>"
| "on_event wr cr now StopCh s = s\<lparr>ws_timer := None, ws_running := False\<rparr>"
| "on_event wr cr now Quiet s = s"

text \<open>The timer's function, once its deadline has come.\<close>

definition fire ::
  "(time \<Rightarrow> (go_error + Config) outcome) \<Rightarrow> time \<Rightarrow> 'cb watch_state \<Rightarrow> 'cb watch_state outcome" where
  "fire load now s =
     (case ws_timer s of
        None \<Rightarrow> Return s
      | Some d \<Rightarrow>
          (if d \<le> now
           then case reload (load d) (ws_watcher s) of
                  Panic e \<Rightarrow> Panic e
                | Return w \<Rightarrow> Return (s\<lparr>ws_watcher := w, ws_timer := None\<rparr>)
           else Return s))"

fun watch ::
  "(time \<Rightarrow> (go_error + Config) outcome) \<Rightarrow> 32 word \<Rightarrow> 32 word \<Rightarrow> (time \<times> watch_event) list \<Rightarrow>
     'cb watch_state \<Rightarrow> 'cb watch_state outcome" where
  "watch load wr cr [] s = Return s"
| "watch load wr cr ((now, e) # es) s =
     (case fire load now s of
        Panic p \<Rightarrow> Panic p
      | Return s \<Rightarrow>
          watch load wr cr es (if ws_running s then on_event wr cr now e s else s))"

section \<open>Histories\<close>

text \<open>
  \<open>told h c0 cs w\<close>: the calls recorded in \<open>w\<close> are those of one pass over the callbacks for each
  configuration of \<open>cs\<close>, each told the one before it (\<open>c0\<close> first).
\<close>

fun passes :: "'cb list \<Rightarrow> Config \<Rightarrow> Config list \<Rightarrow> ('cb \<times> Config \<times> Config) list" where
  "passes cbs c [] = []"
| "passes cbs c (c' # cs) = map (\<lambda>cb. (cb, c, c')) cbs @ passes cbs c' cs"

definition told :: "'cb list \<Rightarrow> Config \<Rightarrow> Config list \<Rightarrow> 'cb Watcher \<Rightarrow> bool" where
  "told cbs c0 cs w \<longleftrightarrow>
     w_callbacks w = cbs \<and> w_calls w = passes cbs c0 cs \<and> w_config w = last (c0 # cs)"

lemma passes_snoc: "passes cbs c (cs @ [c']) = passes cbs c cs @ map (\<lambda>cb. (cb, last (c # cs), c')) cbs"
  by (induction cs arbitrary: c) simp_all

lemma told_install: "told cbs c0 cs w \<Longrightarrow> told cbs c0 (cs @ [c]) (install c w)"
  by (simp add: told_def install_def Let_def passes_snoc)

text \<open>The configurations a run may have loaded.\<close>

definition loadable :: "(time \<Rightarrow> (go_error + Config) outcome) \<Rightarrow> Config list \<Rightarrow> bool" where
  "loadable load cs \<longleftrightarrow> (\<forall>c\<in>set cs. \<exists>t. load t = Return (Inr c))"

lemma fire_told:
  assumes "fire load now s = Return s'" and "told cbs c0 cs (ws_watcher s)" and "loadable load cs"
  shows "\<exists>cs'. told cbs c0 (cs @ cs') (ws_watcher s') \<and> loadable load (cs @ cs')"
proof (cases "ws_watcher s' = ws_watcher s")
  case True
  with assms(2,3) show ?thesis by (intro exI [of _ "[]"]) simp
next
  case False
  with assms(1) obtain d c where "load d = Return (Inr c)" and "ws_watcher s' = install c (ws_watcher s)"
    by (auto simp: fire_def reload_def split: option.splits if_splits outcome.splits sum.splits)
  with assms(2,3) show ?thesis
    using told_install by (intro exI [of _ "[c]"]) (auto simp: loadable_def)
qed

lemma on_event_watcher [simp]: "ws_watcher (on_event wr cr now e s) = ws_watcher s"
  by (cases e) (simp_all add: debounce_def)

lemma watch_told:
  assumes "watch load wr cr es s = Return s'" and "told cbs c0 cs (ws_watcher s)" and "loadable load cs"
  shows "\<exists>cs'. told cbs c0 (cs @ cs') (ws_watcher s') \<and> loadable load (cs @ cs')"
  using assms
proof (induction load wr cr es s arbitrary: cs rule: watch.induct)
  case (1 load wr cr s)
  then show ?case by (intro exI [of _ "[]"]) simp
next
  case (2 load wr cr now e es s)
  from "2.prems"(1) obtain s1 where f: "fire load now s = Return s1"
    and w: "watch load wr cr es (if ws_running s1 then on_event wr cr now e s1 else s1) = Return s'"
    by (auto split: outcome.splits)
  from fire_told [OF f "2.prems"(2,3)] obtain cs1
    where t: "told cbs c0 (cs @ cs1) (ws_watcher s1)" and l: "loadable load (cs @ cs1)" by blast
  from t have "told cbs c0 (cs @ cs1) (ws_watcher (if ws_running s1 then on_event wr cr now e s1 else s1))"
    by simp
  from "2.IH" [OF f w this l] show ?case by (metis append.assoc)
qed

text \<open>A burst of events: all handled, each before the timer of the one before it is due.\<close>

fun burst :: "32 word \<Rightarrow> 32 word \<Rightarrow> string \<Rightarrow> duration \<Rightarrow> time \<Rightarrow> (time \<times> fs_event) list \<Rightarrow> bool" where
  "burst wr cr filename d t [] = True"
| "burst wr cr filename d t ((now, e) # es) =
     (handled wr cr filename e \<and> t \<le> now \<and> now < t + d \<and> burst wr cr filename d now es)"

lemma watch_burst:
  assumes "burst wr cr (Base (w_configPath (ws_watcher s))) (w_debounce (ws_watcher s)) t es"
    and "ws_timer s = Some (t + w_debounce (ws_watcher s))" and "ws_running s"
    and "T = (if es = [] then t else fst (last es))"
  shows "watch load wr cr (map (\<lambda>(now, e). (now, Events e)) es @ rest) s =
    watch load wr cr rest (s\<lparr>ws_timer := Some (T + w_debounce (ws_watcher s))\<rparr>)"
  using assms
proof (induction es arbitrary: s t)
  case Nil
  then have "s\<lparr>ws_timer := Some (T + w_debounce (ws_watcher s))\<rparr> = s" by (cases s) simp
  then show ?case by simp
next
  case (Cons x es)
  obtain now e where x: "x = (now, e)" by (cases x)
  let ?s = "debounce now s"
  have "fire load now s = Return s" using Cons.prems by (simp add: fire_def x)
  then have "watch load wr cr (map (\<lambda>(now, e). (now, Events e)) (x # es) @ rest) s =
      watch load wr cr (map (\<lambda>(now, e). (now, Events e)) es @ rest) ?s"
    using Cons.prems by (simp add: x)
  also have "\<dots> = watch load wr cr rest (?s\<lparr>ws_timer := Some (T + w_debounce (ws_watcher ?s))\<rparr>)"
    by (rule Cons.IH [of ?s now]) (use Cons.prems in \<open>auto simp: debounce_def x\<close>)
  finally show ?case by (simp add: debounce_def)
qed

section \<open>Properties\<close>

text \<open>
  C24. A burst of writes to the configuration file, each within the debounce time of the one before,
  leads to exactly one reload, of the file as it is 500 ms after the last of them: every
  callback is called once, in the order of registration, with the old and the new
  configuration. A file that cannot be loaded then changes nothing and calls no one.
\<close>

theorem burst_reloads_once:
  assumes "burst wr cr (Base (w_configPath w)) (w_debounce w) t ((t, e) # es)"
    and "T = fst (last ((t, e) # es)) + w_debounce w" and "T \<le> later"
  shows "watch load wr cr (map (\<lambda>(now, e). (now, Events e)) ((t, e) # es) @ [(later, Quiet)])
      \<lparr>ws_watcher = w, ws_timer = None, ws_running = True\<rparr> =
    (case load T of
       Panic p \<Rightarrow> Panic p
     | Return (Inl err) \<Rightarrow> Return \<lparr>ws_watcher = w, ws_timer = None, ws_running = True\<rparr>
     | Return (Inr c) \<Rightarrow> Return
         \<lparr>ws_watcher = w\<lparr>w_config := c,
              w_calls := w_calls w @ map (\<lambda>cb. (cb, w_config w, c)) (w_callbacks w)\<rparr>,
          ws_timer = None, ws_running = True\<rparr>)"
proof -
  let ?s = "\<lparr>ws_watcher = w, ws_timer = Some (t + w_debounce w), ws_running = True\<rparr>"
  have "watch load wr cr (map (\<lambda>(now, e). (now, Events e)) es @ [(later, Quiet)]) ?s =
      watch load wr cr [(later, Quiet)] (?s\<lparr>ws_timer := Some T\<rparr>)"
    using watch_burst [of wr cr ?s t es "if es = [] then t else fst (last es)" load "[(later, Quiet)]"] assms
    by simp
  moreover have "watch load wr cr (map (\<lambda>(now, e). (now, Events e)) ((t, e) # es) @ [(later, Quiet)])
      \<lparr>ws_watcher = w, ws_timer = None, ws_running = True\<rparr> =
      watch load wr cr (map (\<lambda>(now, e). (now, Events e)) es @ [(later, Quiet)]) ?s"
    using assms(1) by (simp add: fire_def debounce_def)
  ultimately show ?thesis
    using assms(3) by (simp add: fire_def reload_def install_def Let_def split: outcome.split sum.split)
qed

definition sample_watcher :: "string Watcher" where
  "sample_watcher = \<lparr>w_configPath = ''/etc/proxy/config.yaml'', w_config = sample_config,
     w_callbacks = [''a'', ''b''], w_debounce = 500000000, w_stopped = False, w_calls = []\<rparr>"

definition sample_write :: fs_event where
  "sample_write = \<lparr>ev_Name = ''/etc/proxy/config.yaml'', ev_Op = 2\<rparr>"

lemma sample_handled: "handled 2 1 (Base (w_configPath sample_watcher)) sample_write"
  by (simp add: handled_def sample_write_def sample_watcher_def)

theorem burst_reloads_once_witness:
  "watch (\<lambda>t. Return (Inl (ErrNew ''yaml''))) 2 1
      [(0, Events sample_write), (100, Events sample_write), (500000100, Quiet)]
      \<lparr>ws_watcher = sample_watcher, ws_timer = None, ws_running = True\<rparr> =
    Return \<lparr>ws_watcher = sample_watcher, ws_timer = None, ws_running = True\<rparr>"
proof -
  have "burst 2 1 (Base (w_configPath sample_watcher)) (w_debounce sample_watcher) 0
      [(0, sample_write), (100, sample_write)]"
    using sample_handled by (simp add: sample_watcher_def)
  from burst_reloads_once [OF this refl, of 500000100] show ?thesis
    by (simp add: sample_watcher_def)
qed

text \<open>
  Whatever events arrive, the callbacks see an unbroken history: every configuration that was
  loaded is announced to all of them once, together with its predecessor, starting from the
  initial one, and the current configuration is the last announced. Failed loads leave no
  trace.
\<close>

lemma callbacks_see_history:
  assumes "watch load wr cr es s = Return s'" and "w_calls (ws_watcher s) = []"
  shows "\<exists>cs. (\<forall>c\<in>set cs. \<exists>t. load t = Return (Inr c)) \<and>
    w_calls (ws_watcher s') = passes (w_callbacks (ws_watcher s)) (w_config (ws_watcher s)) cs \<and>
    w_config (ws_watcher s') = last (w_config (ws_watcher s) # cs)"
  using watch_told [OF assms(1), of "w_callbacks (ws_watcher s)" "w_config (ws_watcher s)" "[]"] assms(2)
  by (auto simp: told_def loadable_def)

lemma callbacks_see_history_witness:
  "\<exists>cs s'. watch (\<lambda>t. Return (Inr sample_config)) 2 1 [(0, Events sample_write), (500000000, Quiet)]
      \<lparr>ws_watcher = sample_watcher, ws_timer = None, ws_running = True\<rparr> = Return s' \<and>
    w_calls (ws_watcher s') = passes [''a'', ''b''] sample_config cs \<and> w_calls (ws_watcher s') \<noteq> []"
proof -
  let ?s = "\<lparr>ws_watcher = sample_watcher, ws_timer = None, ws_running = True\<rparr>"
  obtain s' where w: "watch (\<lambda>t. Return (Inr sample_config)) 2 1
      [(0, Events sample_write), (500000000, Quiet)] ?s = Return s'" and c: "w_calls (ws_watcher s') \<noteq> []"
    using sample_handled
    by (simp add: fire_def debounce_def reload_def install_def Let_def sample_watcher_def)
  from callbacks_see_history [OF w] c w show ?thesis
    by (auto simp: sample_watcher_def)
qed

end
