(* ===== verification/Grpc.thy ===== *)
theory Grpc
  imports Proxy
begin

text \<open>
  \<open>internal/grpc\<close>: the RPC and health services over the same manager and cache as the HTTP
  handlers. JSON coding is an argument (decoding of parameters, encoding of the request object,
  decoding of the response struct, whose \<open>id\<close> is an \<open>int64\<close>); the messages are those of
  \<open>api/proto\<close>. A gRPC stream is the list of what its \<open>Recv\<close> and \<open>Send\<close> return.
\<close>

section \<open>Messages\<close>

record grpc_request =
  gq_Chain :: string
  gq_Jsonrpc :: string
  gq_Method :: string
  gq_Params :: bytes
  gq_Id :: int

record grpc_error =
  ge_Code :: int
  ge_Message :: string
  ge_Data :: bytes

record grpc_response =
  gr_Jsonrpc :: string
  gr_Result :: bytes
  gr_Error :: "grpc_error option"
  gr_Id :: int
  gr_Cached :: bool

datatype grpc_code = NotFound | InvalidArgument | Internal | Unavailable

text \<open>\<open>status.Errorf\<close>\<close>

datatype grpc_status = Status grpc_code string

fun status_message :: "grpc_status \<Rightarrow> string" where
  "status_message (Status c msg) = msg"

text \<open>The struct \<open>parseResponse\<close> decodes into.\<close>

record json_response =
  jr_JSONRPC :: string
  jr_Result :: bytes
  jr_Error :: "(int \<times> string \<times> string) option"
  jr_ID :: int

text \<open>The JSON functions of the service.\<close>

record json_coding =
  jc_params :: "bytes \<Rightarrow> go_error + json"
  jc_marshal :: "json \<Rightarrow> go_error + bytes"
  jc_response :: "bytes \<Rightarrow> go_error + json_response"

section \<open>The RPC service\<close>

definition parseResponse :: "json_coding \<Rightarrow> bytes \<Rightarrow> bool \<Rightarrow> grpc_status + grpc_response" where
  "parseResponse jc data cached =
     (case jc_response jc data of
        Inl err \<Rightarrow> Inl (Status Internal (''failed to parse response: '' @ error_text err))
      | Inr j \<Rightarrow>
          (let resp = \<lparr>gr_Jsonrpc = jr_JSONRPC j, gr_Result = [], gr_Error = None,
                 gr_Id = jr_ID j, gr_Cached = cached\<rparr>
           in case jr_Error j of
                Some (code, message, errData) \<Rightarrow>
                  Inr (resp\<lparr>gr_Error := Some \<lparr>ge_Code = code, ge_Message = message, ge_Data = errData\<rparr>\<rparr>)
              | None \<Rightarrow> Inr (resp\<lparr>gr_Result := jr_Result j\<rparr>)))"

text \<open>The request object, with \<open>params\<close> when there are any.\<close>

definition rpc_object :: "json_coding \<Rightarrow> grpc_request \<Rightarrow> go_error + json" where
  "rpc_object jc req =
     (let rpcReq = [(''jsonrpc'', JString (gq_Jsonrpc req)), (''method'', JString (gq_Method req)),
            (''id'', json_int (gq_Id req))]
      in if gq_Params req \<noteq> []
         then (case jc_params jc (gq_Params req) of
                 Inl err \<Rightarrow> Inl err
               | Inr params \<Rightarrow> Inr (JObject (rpcReq @ [(''params'', params)])))
         else Inr (JObject rpcReq))"

definition grpc_forward ::
  "json_coding \<Rightarrow> 'tls rpc_env \<Rightarrow> grpc_request \<Rightarrow> json \<Rightarrow> 'tls Chain \<Rightarrow> 'tls server \<Rightarrow>
     (grpc_status + grpc_response) \<times> 'tls server" where
  "grpc_forward jc env req rpcReq ch sv =
     (case jc_marshal jc rpcReq of
        Inl err \<Rightarrow> (Inl (Status Internal (''failed to marshal request: '' @ error_text err)), sv)
      | Inr body \<Rightarrow>
          (case ForwardWithRetry ch body 2 (rv_attempt env) of
             (Inl err, ch') \<Rightarrow>
               (Inl (Status Unavailable (''backend error: '' @ error_text err)),
                sv\<lparr>sv_manager := put_chain (gq_Chain req) ch' (sv_manager sv),
                   sv_cache := rv_cache env (sv_cache sv)\<rparr>)
           | (Inr resp, ch') \<Rightarrow>
               (let c = rv_cache env (sv_cache sv);
                    c = (if mc_IsCacheable c (gq_Method req)
                         then mc_Set c (rv_set env) (gq_Chain req) (gq_Method req) (gq_Params req) resp
                         else c)
                in (parseResponse jc resp False,
                    sv\<lparr>sv_manager := put_chain (gq_Chain req) ch' (sv_manager sv), sv_cache := c\<rparr>))))"

definition grpc_Call ::
  "json_coding \<Rightarrow> 'tls rpc_env \<Rightarrow> grpc_request \<Rightarrow> 'tls server \<Rightarrow>
     (grpc_status + grpc_response) \<times> 'tls server" where
  "grpc_Call jc env req sv =
     (case GetChain (sv_manager sv) (gq_Chain req) of
        None \<Rightarrow> (Inl (Status NotFound (''chain not found: '' @ gq_Chain req)), sv)
      | Some ch \<Rightarrow>
          (case rpc_object jc req of
             Inl err \<Rightarrow> (Inl (Status InvalidArgument (''invalid params: '' @ error_text err)), sv)
           | Inr rpcReq \<Rightarrow>
               (if mc_IsCacheable (sv_cache sv) (gq_Method req)
                then let (cached, c) = mc_Get (sv_cache sv) (rv_get env) (gq_Chain req) (gq_Method req)
                           (gq_Params req);
                         sv = sv\<lparr>sv_cache := c\<rparr>
                     in case cached of
                          Some b \<Rightarrow> (parseResponse jc b True, sv)
                        | None \<Rightarrow> grpc_forward jc env req rpcReq ch sv
                else grpc_forward jc env req rpcReq ch sv)))"

text \<open>An error of one call becomes a response with the id of its request.\<close>

definition error_response :: "grpc_status \<Rightarrow> grpc_request \<Rightarrow> grpc_response" where
  "error_response st r =
     \<lparr>gr_Jsonrpc = ''2.0'', gr_Result = [],
      gr_Error = Some \<lparr>ge_Code = - 32603, ge_Message = status_message st, ge_Data = []\<rparr>,
      gr_Id = gq_Id r, gr_Cached = False\<rparr>"

definition call_response ::
  "json_coding \<Rightarrow> 'tls rpc_env \<Rightarrow> grpc_request \<Rightarrow> 'tls server \<Rightarrow> grpc_response \<times> 'tls server" where
  "call_response jc env r sv =
     (case grpc_Call jc env r sv of
        (Inl st, sv') \<Rightarrow> (error_response st r, sv')
      | (Inr resp, sv') \<Rightarrow> (resp, sv'))"

fun BatchCall ::
  "json_coding \<Rightarrow> ('tls rpc_env \<times> grpc_request) list \<Rightarrow> 'tls server \<Rightarrow> grpc_response list \<times> 'tls server" where
  "BatchCall jc [] sv = ([], sv)"
| "BatchCall jc ((env, r) # rs) sv =
     (let (resp, sv) = call_response jc env r sv; (resps, sv) = BatchCall jc rs sv
      in (resp # resps, sv))"

datatype grpc_recv = RecvMsg grpc_request | RecvEOF | RecvErr go_error

text \<open>
  One round of \<open>StreamCalls\<close>: what \<open>Recv\<close> gives, the environment of the call, and the error of
  \<open>Send\<close>, if any. The second result are the responses sent; a loop whose rounds are used up
  waits in \<open>Recv\<close>.
\<close>

datatype stream_result = Waiting | Returned "go_error option"

fun StreamCalls ::
  "json_coding \<Rightarrow> (grpc_recv \<times> 'tls rpc_env \<times> go_error option) list \<Rightarrow> 'tls server \<Rightarrow>
     stream_result \<times> grpc_response list \<times> 'tls server" where
  "StreamCalls jc [] sv = (Waiting, [], sv)"
| "StreamCalls jc ((RecvEOF, env, sent) # es) sv = (Returned None, [], sv)"
| "StreamCalls jc ((RecvErr err, env, sent) # es) sv = (Returned (Some err), [], sv)"
| "StreamCalls jc ((RecvMsg req, env, sent) # es) sv =
     (let (resp, sv) = call_response jc env req sv
      in case sent of
           Some err \<Rightarrow> (Returned (Some err), [], sv)
         | None \<Rightarrow> (let (r, resps, sv) = StreamCalls jc es sv in (r, resp # resps, sv)))"

section \<open>The health service\<close>

datatype health_status_code = UNHEALTHY | HEALTHY | DEGRADED

record ChainStatus =
  gs_Healthy :: bool
  gs_HealthyEndpoints :: int
  gs_TotalEndpoints :: int
  gs_BlockHeight :: int

definition chain_status :: "ChainStats \<Rightarrow> ChainStatus" where
  "chain_status st =
     \<lparr>gs_Healthy = 0 < cs_HealthyEndpoints st, gs_HealthyEndpoints = wrap32 (cs_HealthyEndpoints st),
      gs_TotalEndpoints = wrap32 (cs_TotalEndpoints st), gs_BlockHeight = cs_HighestBlock st\<rparr>"

fun check_loop ::
  "ChainStats gomap \<Rightarrow> bool \<Rightarrow> ChainStatus gomap \<Rightarrow> bool \<times> ChainStatus gomap" where
  "check_loop [] ok cm = (ok, cm)"
| "check_loop ((name, st) # stats) ok cm =
     (let h = 0 < cs_HealthyEndpoints st
      in check_loop stats (if \<not> h then False else ok) (cm @ [(name, chain_status st)]))"

definition Check :: "'tls Manager \<Rightarrow> health_status_code \<times> ChainStatus gomap" where
  "Check m =
     (let stats = AllStats m; (overallHealthy, cm) = check_loop stats True []
      in (if length stats = 0 then UNHEALTHY else if overallHealthy then HEALTHY else DEGRADED, cm))"

record EndpointStatus =
  gp_Url :: string
  gp_Healthy :: bool
  gp_BlockHeight :: int
  gp_LatencyMs :: float64
  gp_TotalRequests :: int
  gp_FailedRequests :: int

definition endpoint_status :: "EndpointStats \<Rightarrow> EndpointStatus" where
  "endpoint_status ep =
     \<lparr>gp_Url = es_URL ep, gp_Healthy = es_Healthy ep, gp_BlockHeight = es_BlockHeight ep,
      gp_LatencyMs = es_LatencyMs ep, gp_TotalRequests = es_TotalReqs ep,
      gp_FailedRequests = es_FailedReqs ep\<rparr>"

record ChainHealthResponse =
  gh_Chain :: string
  gh_ChainId :: int
  gh_Healthy :: bool
  gh_HighestBlock :: int
  gh_Endpoints :: "EndpointStatus list"

definition CheckChain :: "'tls Manager \<Rightarrow> string \<Rightarrow> grpc_status + ChainHealthResponse" where
  "CheckChain m chain =
     (case GetChain m chain of
        None \<Rightarrow> Inl (Status NotFound (''chain not found: '' @ chain))
      | Some ch \<Rightarrow>
          (let stats = Chain_Stats ch
           in Inr \<lparr>gh_Chain = chain, gh_ChainId = wrap32 (cs_ChainID stats),
                gh_Healthy = 0 < cs_HealthyEndpoints stats, gh_HighestBlock = cs_HighestBlock stats,
                gh_Endpoints = map endpoint_status (cs_Endpoints stats)\<rparr>))"

record ChainInfo =
  gi_Name :: string
  gi_ChainId :: int
  gi_Healthy :: bool
  gi_HealthyEndpoints :: int
  gi_TotalEndpoints :: int
  gi_BlockHeight :: int

definition chain_info :: "string \<times> ChainStats \<Rightarrow> ChainInfo" where
  "chain_info ns =
     (case ns of (name, st) \<Rightarrow>
       \<lparr>gi_Name = name, gi_ChainId = wrap32 (cs_ChainID st), gi_Healthy = 0 < cs_HealthyEndpoints st,
        gi_HealthyEndpoints = wrap32 (cs_HealthyEndpoints st),
        gi_TotalEndpoints = wrap32 (cs_TotalEndpoints st), gi_BlockHeight = cs_HighestBlock st\<rparr>)"

definition grpc_ListChains :: "'tls Manager \<Rightarrow> ChainInfo list" where
  "grpc_ListChains m = map chain_info (AllStats m)"

section \<open>Interceptors\<close>

text \<open>Both only log: the handler's result and error are passed on.\<close>

definition loggingUnaryInterceptor :: "('q \<Rightarrow> 's \<Rightarrow> 'r \<times> 's) \<Rightarrow> 'q \<Rightarrow> 's \<Rightarrow> 'r \<times> 's" where
  "loggingUnaryInterceptor handler req s = (let (resp, s) = handler req s in (resp, s))"

definition loggingStreamInterceptor ::
  "('q \<Rightarrow> 's \<Rightarrow> go_error option \<times> 's) \<Rightarrow> 'q \<Rightarrow> 's \<Rightarrow> go_error option \<times> 's" where
  "loggingStreamInterceptor handler ss s = (let (err, s) = handler ss s in (err, s))"

section \<open>What the services compute\<close>

lemma check_loop_ok: "fst (check_loop stats ok cm) = (ok \<and> (\<forall>s\<in>snd ` set stats. 0 < cs_HealthyEndpoints s))"
  by (induction stats ok cm rule: check_loop.induct) (auto simp: Let_def)

lemma check_loop_chains:
  "snd (check_loop stats ok cm) = cm @ map (\<lambda>(name, st). (name, chain_status st)) stats"
  by (induction stats ok cm rule: check_loop.induct) (simp_all add: Let_def)

lemma grpc_Call_hit:
  assumes "GetChain (sv_manager sv) (gq_Chain req) = Some ch" and "rpc_object jc req = Inr obj"
    and "mc_IsCacheable (sv_cache sv) (gq_Method req)"
    and "mc_live (sv_cache sv) (rv_get env)
      (mc_makeKey (gq_Chain req) (gq_Method req) (gq_Params req)) = Some b"
  shows "fst (grpc_Call jc env req sv) = parseResponse jc b True"
    and "sv_manager (snd (grpc_Call jc env req sv)) = sv_manager sv"
  using assms mc_IsCacheable_enabled [OF assms(3)]
  by (simp_all add: grpc_Call_def mc_Get_def split_def Let_def mc.look_value)

lemma grpc_Call_miss:
  assumes "GetChain (sv_manager sv) (gq_Chain req) = Some ch" and "rpc_object jc req = Inr obj"
    and "\<not> (mc_IsCacheable (sv_cache sv) (gq_Method req) \<and> mc_live (sv_cache sv) (rv_get env)
      (mc_makeKey (gq_Chain req) (gq_Method req) (gq_Params req)) \<noteq> None)"
  shows "\<exists>sv'. grpc_Call jc env req sv = grpc_forward jc env req obj ch sv' \<and> sv_manager sv' = sv_manager sv"
proof (cases "mc_IsCacheable (sv_cache sv) (gq_Method req)")
  case True
  with assms mc_IsCacheable_enabled [OF True] show ?thesis
    by (auto simp add: grpc_Call_def mc_Get_def split_def Let_def mc.look_value)
next
  case False
  with assms show ?thesis by (auto simp: grpc_Call_def)
qed

text \<open>The answer after a miss.\<close>

lemma grpc_forward_answer:
  "let (r, sv') = grpc_forward jc env req obj ch sv
   in case jc_marshal jc obj of
        Inl err \<Rightarrow> r = Inl (Status Internal (''failed to marshal request: '' @ error_text err)) \<and> sv' = sv
      | Inr body \<Rightarrow>
          sv_manager sv' = put_chain (gq_Chain req)
            (snd (ForwardWithRetry ch body 2 (rv_attempt env))) (sv_manager sv) \<and>
          (case fst (ForwardWithRetry ch body 2 (rv_attempt env)) of
             Inl err \<Rightarrow> r = Inl (Status Unavailable (''backend error: '' @ error_text err))
           | Inr b \<Rightarrow> r = parseResponse jc b False \<and>
               (\<exists>k ep code d. k \<le> 2 \<and> at_http (rv_attempt env k) ep body = Response code b d))"
proof (cases "jc_marshal jc obj")
  case (Inl err)
  then show ?thesis by (simp add: grpc_forward_def)
next
  case (Inr body)
  obtain f ch' where f: "ForwardWithRetry ch body 2 (rv_attempt env) = (f, ch')" by fastforce
  show ?thesis
  proof (cases f)
    case (Inl err)
    with f Inr show ?thesis by (simp add: grpc_forward_def)
  next
    case b: (Inr b)
    with f have "fst (ForwardWithRetry ch body 2 (rv_attempt env)) = Inr b" by simp
    from retry_Inr_from_backend [OF this] obtain k ep code d
      where "k \<le> 2" "at_http (rv_attempt env k) ep body = Response code b d" by auto
    with f b Inr show ?thesis by (auto simp: grpc_forward_def Let_def)
  qed
qed

lemma BatchCall_length: "length (fst (BatchCall jc rs sv)) = length rs"
proof (induction rs arbitrary: sv)
  case (Cons x rs)
  then show ?case by (cases x) (simp add: Let_def split_def)
qed simp

section \<open>Properties\<close>

text \<open>
  C14. Every answer of \<open>Call\<close>: \<open>NotFound\<close> for an unknown chain and \<open>InvalidArgument\<close> for parameters
  that do not decode, both without touching anything. Otherwise a cacheable request with a live
  entry is answered with its decoding, marked as cached, and no chain is touched. Otherwise
  the request is encoded (\<open>Internal\<close> if that fails, no chain touched) and forwarded with two
  retries: the answer is the decoding of the unaltered body of some backend for the request as
  encoded, or \<open>Unavailable\<close> with the error of the retries.
\<close>

theorem grpc_call_answer:
  "let (r, sv') = grpc_Call jc env req sv;
       live = mc_live (sv_cache sv) (rv_get env) (mc_makeKey (gq_Chain req) (gq_Method req) (gq_Params req))
   in case GetChain (sv_manager sv) (gq_Chain req) of
        None \<Rightarrow> r = Inl (Status NotFound (''chain not found: '' @ gq_Chain req)) \<and> sv' = sv
      | Some ch \<Rightarrow>
          (case rpc_object jc req of
             Inl err \<Rightarrow> r = Inl (Status InvalidArgument (''invalid params: '' @ error_text err)) \<and> sv' = sv
           | Inr obj \<Rightarrow>
               if mc_IsCacheable (sv_cache sv) (gq_Method req) \<and> live \<noteq> None
               then r = parseResponse jc (the live) True \<and> sv_manager sv' = sv_manager sv
               else (case jc_marshal jc obj of
                   Inl err \<Rightarrow> r = Inl (Status Internal (''failed to marshal request: '' @ error_text err)) \<and>
                     sv_manager sv' = sv_manager sv
                 | Inr body \<Rightarrow>
                     sv_manager sv' = put_chain (gq_Chain req)
                       (snd (ForwardWithRetry ch body 2 (rv_attempt env))) (sv_manager sv) \<and>
                     (case fst (ForwardWithRetry ch body 2 (rv_attempt env)) of
                        Inl err \<Rightarrow> r = Inl (Status Unavailable (''backend error: '' @ error_text err))
                      | Inr b \<Rightarrow> r = parseResponse jc b False \<and>
                          (\<exists>k ep code d. k \<le> 2 \<and> at_http (rv_attempt env k) ep body = Response code b d))))"
proof (cases "GetChain (sv_manager sv) (gq_Chain req)")
  case None
  then show ?thesis by (simp add: grpc_Call_def)
next
  case ch: (Some ch)
  show ?thesis
  proof (cases "rpc_object jc req")
    case (Inl err)
    with ch show ?thesis by (simp add: grpc_Call_def)
  next
    case obj: (Inr obj)
    let ?live = "mc_live (sv_cache sv) (rv_get env) (mc_makeKey (gq_Chain req) (gq_Method req) (gq_Params req))"
    show ?thesis
    proof (cases "mc_IsCacheable (sv_cache sv) (gq_Method req) \<and> ?live \<noteq> None")
      case True
      then obtain b where "?live = Some b" by blast
      with True ch obj grpc_Call_hit [OF ch obj _ this] show ?thesis by (simp add: split_def)
    next
      case False
      from grpc_Call_miss [OF ch obj False] obtain sv1
        where "grpc_Call jc env req sv = grpc_forward jc env req obj ch sv1" "sv_manager sv1 = sv_manager sv"
        by blast
      with grpc_forward_answer [of jc env req obj ch sv1] ch obj False show ?thesis
        by (auto simp: split_def Let_def split: sum.splits) blast+
    qed
  qed
qed

definition sample_coding :: json_coding where
  "sample_coding =
     \<lparr>jc_params = (\<lambda>p. if p = ''[]'' then Inr (JArray []) else Inl (ErrNew ''unexpected end'')),
      jc_marshal = (\<lambda>_. Inr ''1''),
      jc_response = (\<lambda>b. if b = ''busy'' then Inl (ErrNew ''invalid character'')
        else Inr \<lparr>jr_JSONRPC = ''2.0'', jr_Result = b, jr_Error = None, jr_ID = 1\<rparr>)\<rparr>"

definition sample_call :: grpc_request where
  "sample_call = \<lparr>gq_Chain = ''eth'', gq_Jsonrpc = ''2.0'', gq_Method = ''m'', gq_Params = ''[]'', gq_Id = 1\<rparr>"

lemma sample_call_simps [simp]:
  "gq_Chain sample_call = ''eth''" "gq_Method sample_call = ''m''" "gq_Params sample_call = ''[]''"
  by (simp_all add: sample_call_def)

lemma sample_object:
  "rpc_object sample_coding sample_call = Inr (JObject
     [(''jsonrpc'', JString ''2.0''), (''method'', JString ''m''), (''id'', json_int 1), (''params'', JArray [])])"
  by (simp add: rpc_object_def sample_coding_def sample_call_def)

theorem grpc_call_answer_witness:
  "fst (grpc_Call sample_coding (sample_env 100 503) (sample_call\<lparr>gq_Chain := ''sol''\<rparr>) sample_server) =
     Inl (Status NotFound ''chain not found: sol'') \<and>
   fst (grpc_Call sample_coding (sample_env 100 503) (sample_call\<lparr>gq_Params := ''[''\<rparr>) sample_server) =
     Inl (Status InvalidArgument ''invalid params: unexpected end'')"
proof -
  have "GetChain (sv_manager sample_server) ''sol'' = None"
    by (simp add: GetChain_def sample_server_def)
  moreover have "rpc_object sample_coding (sample_call\<lparr>gq_Params := ''[''\<rparr>) = Inl (ErrNew ''unexpected end'')"
    by (simp add: rpc_object_def sample_coding_def Let_def)
  ultimately show ?thesis
    using grpc_call_answer [of sample_coding "sample_env 100 503" "sample_call\<lparr>gq_Chain := ''sol''\<rparr>" sample_server]
      grpc_call_answer [of sample_coding "sample_env 100 503" "sample_call\<lparr>gq_Params := ''[''\<rparr>" sample_server]
    by (simp add: split_def Let_def)
qed

text \<open>
  C15. The HTTP handler and \<open>Call\<close> share the cache: what a backend answered to a cacheable HTTP
  request is what \<open>Call\<close> decodes for the same chain, method and parameters until the entry is
  \<open>ttl\<close> old, with the \<open>id\<close> of the HTTP request. If the body does not decode (an \<open>id\<close> that is no
  64-bit integer is enough) every such call fails with \<open>Internal\<close>, without a backend being asked.
\<close>

theorem http_entry_served_by_grpc:
  assumes "GetChain (sv_manager sv) (rqs_Chain rq) = Some ch" and "um (rqs_Body rq) = Inr req"
    and "gq_Chain call = rqs_Chain rq" and "gq_Method call = rr_Method req" and "gq_Params call = rr_Params req"
    and "mc_IsCacheable (sv_cache sv) (rr_Method req)"
    and "mc_live (sv_cache sv) (rv_get env)
      (mc_makeKey (rqs_Chain rq) (rr_Method req) (rr_Params req)) = None"
    and "ForwardWithRetry ch (rqs_Body rq) 2 (rv_attempt env) = (Inr b, ch')" and "rv_cache env = id"
    and "rpc_object jc call = Inr obj" and "rv_get env' \<le> rv_set env + mc_ttl (sv_cache sv)"
  shows "let sv1 = snd (HandleRPC um env rq (new_response, sv)); (r, sv2) = grpc_Call jc env' call sv1
    in r = parseResponse jc b True \<and> sv_manager sv2 = sv_manager sv1 \<and>
       (\<forall>err. jc_response jc b = Inl err \<longrightarrow>
          r = Inl (Status Internal (''failed to parse response: '' @ error_text err)))"
proof -
  let ?sv1 = "snd (HandleRPC um env rq (new_response, sv))"
  note st = HandleRPC_stores [where um = um and r = new_response, OF assms(1,2,6-9)]
  have "fst (grpc_Call jc env' call ?sv1) = parseResponse jc b True \<and>
      sv_manager (snd (grpc_Call jc env' call ?sv1)) = sv_manager ?sv1"
    using grpc_Call_hit [of ?sv1 call ch' jc obj env' b] assms(3-5,10) st(2,3) st(4) [OF assms(11)] by simp
  then show ?thesis by (simp add: Let_def split_def parseResponse_def)
qed

theorem http_entry_served_by_grpc_witness:
  "let sv1 = snd (HandleRPC sample_parse (sample_env 100 503) (sample_request ''1'') (new_response, sample_server))
   in fst (grpc_Call sample_coding (sample_env 160 200) sample_call sv1) =
      Inl (Status Internal ''failed to parse response: invalid character'')"
proof -
  have a: "rv_attempt (sample_env 100 503) = (\<lambda>_. sample_attempt 503)"
    by (simp add: sample_env_def)
  define ch' where "ch' = snd (ForwardWithRetry sample_chain ''1'' 2 (\<lambda>_. sample_attempt 503))"
  have f: "ForwardWithRetry sample_chain (rqs_Body (sample_request ''1'')) 2
      (rv_attempt (sample_env 100 503)) = (Inr ''busy'', ch')"
    unfolding ch'_def a sample_server_simps(4) sample_forward [symmetric] by (rule prod.collapse [symmetric])
  let ?q = "\<lparr>rr_JSONRPC = ''2.0'', rr_Method = ''m'', rr_Params = ''[]'', rr_ID = JString ''1''\<rparr>"
  have "let sv1 = snd (HandleRPC sample_parse (sample_env 100 503) (sample_request ''1'') (new_response, sample_server));
      (r, sv2) = grpc_Call sample_coding (sample_env 160 200) sample_call sv1
    in r = parseResponse sample_coding ''busy'' True \<and> sv_manager sv2 = sv_manager sv1 \<and>
       (\<forall>err. jc_response sample_coding ''busy'' = Inl err \<longrightarrow>
          r = Inl (Status Internal (''failed to parse response: '' @ error_text err)))"
    by (rule http_entry_served_by_grpc [where req = ?q, OF sample_server_simps(1) _ _ _ _ _ _ f _ sample_object])
      (simp_all add: sample_parse_def sample_env_def)
  moreover have "jc_response sample_coding ''busy'' = Inl (ErrNew ''invalid character'')"
    by (simp add: sample_coding_def)
  ultimately show ?thesis by (auto simp: Let_def split_def)
qed

text \<open>
  \<open>StreamCalls\<close> is \<open>BatchCall\<close> as long as the client receives: the same responses in the same
  order, with the same effect on chains and cache. A response that cannot be sent ends the
  stream with its error, after its call was made.
\<close>

lemma stream_is_batch:
  "StreamCalls jc (map (\<lambda>(env, r). (RecvMsg r, env, None)) rs @ (RecvEOF, env, sent) # es) sv =
     (let (resps, sv') = BatchCall jc rs sv in (Returned None, resps, sv')) \<and>
   StreamCalls jc (map (\<lambda>(env, r). (RecvMsg r, env, None)) rs @ (RecvMsg req, env, Some err) # es) sv =
     (Returned (Some err), fst (BatchCall jc rs sv), snd (BatchCall jc (rs @ [(env, req)]) sv)) \<and>
   length (fst (BatchCall jc rs sv)) = length rs"
proof (induction rs arbitrary: sv)
  case Nil
  then show ?case by (simp add: Let_def split_def)
next
  case (Cons x rs)
  then show ?case by (cases x) (simp add: Let_def split_def)
qed

text \<open>
  The gRPC check and the HTTP health page agree on a proxy with chains: \<open>HEALTHY\<close> is 200 and
  \<open>DEGRADED\<close> is 503. They differ on a proxy without chains, which is \<open>UNHEALTHY\<close> over gRPC and
  200 over HTTP. The check reports every chain.
\<close>

lemma health_services_agree:
  "let (st, cm) = Check (sv_manager sv); r = fst (HandleHealth (new_response, sv))
   in (st = HEALTHY \<longleftrightarrow> rsp_Status r = 200 \<and> sv_manager sv \<noteq> []) \<and>
      (st = DEGRADED \<longleftrightarrow> rsp_Status r = 503) \<and>
      (st = UNHEALTHY \<longleftrightarrow> sv_manager sv = []) \<and>
      rsp_Status r \<in> {200, 503} \<and>
      cm = map (\<lambda>(name, c). (name, chain_status (Chain_Stats c))) (sv_manager sv)"
proof -
  let ?stats = "AllStats (sv_manager sv)"
  have n: "AllStats m = [] \<longleftrightarrow> m = []" for m :: "'a Manager" by (simp add: AllStats_def)
  have c: "snd (check_loop ?stats True []) = map (\<lambda>(name, c). (name, chain_status (Chain_Stats c))) (sv_manager sv)"
    by (simp add: check_loop_chains AllStats_def case_prod_unfold)
  have l: "fst (check_loop ?stats True []) = fst (health_loop ?stats True [] (sv_metrics sv))"
    by (simp add: check_loop_ok health_loop_ok)
  have "rsp_Status (fst (HandleHealth (new_response, sv))) =
      (if fst (health_loop ?stats True [] (sv_metrics sv)) then 200 else 503)"
    by (simp add: HandleHealth_def Let_def split_def send_json_def set_header_def)
  moreover have "sv_manager sv = [] \<longrightarrow> fst (health_loop ?stats True [] (sv_metrics sv))"
    by (simp add: health_loop_ok AllStats_def)
  ultimately show ?thesis
    by (auto simp: Check_def Let_def split_def l n c [unfolded split_def])
qed

end
