(* ===== verification/Pool.thy ===== *)
theory Pool
  imports Config
begin

text \<open>
  \<open>internal/websocket/pool.go\<close>: the pool of backend WebSocket connections. Clients and pool
  share pointers to \<open>PooledConnection\<close>, so the connections live in a heap (a list that only
  grows; an address is a position) and \<open>connections\<close> holds addresses. Of the socket behind a
  connection the pool only uses \<open>Close\<close>, so it is the flag \<open>pn_open\<close>. A method holds the mutex
  throughout and is one step; the clock readings it makes and the outcome of dialling are
  its arguments.
\<close>

section \<open>Configuration and state\<close>

record PoolConfig =
  pcf_MaxConnections :: int
  pcf_IdleTimeout :: duration
  pcf_HealthCheckInterval :: duration
  pcf_WaitTimeout :: duration
  pcf_MaxLifetime :: duration

definition DefaultPoolConfig :: PoolConfig where
  "DefaultPoolConfig =
     \<lparr>pcf_MaxConnections = 10, pcf_IdleTimeout = 5 * 60 * second,
      pcf_HealthCheckInterval = 30 * second, pcf_WaitTimeout = 10 * second,
      pcf_MaxLifetime = 30 * 60 * second\<rparr>"

record PooledConnection =
  pn_open :: bool
  pn_URL :: string
  pn_CreatedAt :: time
  pn_LastUsedAt :: time
  pn_InUse :: bool

record ConnectionPool =
  pl_url :: string
  pl_config :: PoolConfig
  pl_heap :: "PooledConnection list"
  pl_connections :: "nat list"
  pl_closed :: bool

text \<open>\<open>make\<close> with a negative capacity panics.\<close>

definition NewConnectionPool :: "string \<Rightarrow> PoolConfig \<Rightarrow> ConnectionPool outcome" where
  "NewConnectionPool url config =
     (if pcf_MaxConnections config < 0 then Panic ''makeslice: cap out of range''
      else Return \<lparr>pl_url = url, pl_config = config, pl_heap = [], pl_connections = [], pl_closed = False\<rparr>)"

definition conn_at :: "ConnectionPool \<Rightarrow> nat \<Rightarrow> PooledConnection" where
  "conn_at p a = pl_heap p ! a"

definition set_conn :: "nat \<Rightarrow> (PooledConnection \<Rightarrow> PooledConnection) \<Rightarrow> ConnectionPool \<Rightarrow> ConnectionPool" where
  "set_conn a f p = p\<lparr>pl_heap := (pl_heap p)[a := f (pl_heap p ! a)]\<rparr>"

text \<open>\<open>conn.Conn.Close()\<close>\<close>

definition close_conn :: "nat \<Rightarrow> ConnectionPool \<Rightarrow> ConnectionPool" where
  "close_conn a = set_conn a (\<lambda>c. c\<lparr>pn_open := False\<rparr>)"

text \<open>\<open>httpToWS\<close> of \<open>internal/websocket/handler.go\<close>\<close>

definition httpToWS :: "string \<Rightarrow> string" where
  "httpToWS url =
     (if 7 < length url \<and> take 7 url = ''http://'' then ''ws://'' @ drop 7 url
      else if 8 < length url \<and> take 8 url = ''https://'' then ''wss://'' @ drop 8 url
      else url)"

section \<open>Operations\<close>

text \<open>\<open>isHealthy\<close> reads the clock at most twice.\<close>

definition isHealthy :: "PoolConfig \<Rightarrow> time \<times> time \<Rightarrow> PooledConnection \<Rightarrow> bool" where
  "isHealthy config now c =
     (if pcf_IdleTimeout config < time_sub (fst now) (pn_LastUsedAt c) then False
      else if 0 < pcf_MaxLifetime config \<and> pcf_MaxLifetime config < time_sub (snd now) (pn_CreatedAt c)
      then False
      else True)"

text \<open>
  What one call of \<open>Get\<close> meets: the clock while it looks at the connection with the given
  index, the clock when it takes or creates one, and the answer to dialling a URL.
\<close>

record get_env =
  pv_clock :: "nat \<Rightarrow> time \<times> time"
  pv_now :: time
  pv_dial :: "string \<Rightarrow> go_error option"

definition createConnection :: "get_env \<Rightarrow> ConnectionPool \<Rightarrow> go_error + PooledConnection" where
  "createConnection env p =
     (case pv_dial env (httpToWS (pl_url p)) of
        Some err \<Rightarrow> Inl err
      | None \<Rightarrow> Inr \<lparr>pn_open = True, pn_URL = pl_url p, pn_CreatedAt = pv_now env,
          pn_LastUsedAt = pv_now env, pn_InUse = True\<rparr>)"

fun find_idle :: "get_env \<Rightarrow> ConnectionPool \<Rightarrow> nat \<Rightarrow> nat list \<Rightarrow> nat option" where
  "find_idle env p i [] = None"
| "find_idle env p i (a # as) =
     (if \<not> pn_InUse (conn_at p a) \<and> isHealthy (pl_config p) (pv_clock env i) (conn_at p a) then Some a
      else find_idle env p (Suc i) as)"

definition pool_Get :: "get_env \<Rightarrow> ConnectionPool \<Rightarrow> (go_error + nat) \<times> ConnectionPool" where
  "pool_Get env p =
     (if pl_closed p then (Inl ErrPoolClosed, p)
      else
        case find_idle env p 0 (pl_connections p) of
          Some a \<Rightarrow> (Inr a, set_conn a (\<lambda>c. c\<lparr>pn_InUse := True, pn_LastUsedAt := pv_now env\<rparr>) p)
        | None \<Rightarrow>
            (if int (length (pl_connections p)) < pcf_MaxConnections (pl_config p) then
               (case createConnection env p of
                  Inl err \<Rightarrow> (Inl err, p)
                | Inr c \<Rightarrow> (Inr (length (pl_heap p)),
                    p\<lparr>pl_heap := pl_heap p @ [c], pl_connections := pl_connections p @ [length (pl_heap p)]\<rparr>))
             else (Inl ErrPoolExhausted, p)))"

definition pool_Put :: "time \<Rightarrow> nat \<Rightarrow> ConnectionPool \<Rightarrow> ConnectionPool" where
  "pool_Put now a = set_conn a (\<lambda>c. c\<lparr>pn_InUse := False, pn_LastUsedAt := now\<rparr>)"

fun remove_loop :: "nat \<Rightarrow> nat list \<Rightarrow> nat list \<Rightarrow> ConnectionPool \<Rightarrow> ConnectionPool" where
  "remove_loop a seen [] p = p"
| "remove_loop a seen (c # cs) p =
     (if c = a then (close_conn c p)\<lparr>pl_connections := seen @ cs\<rparr>
      else remove_loop a (seen @ [c]) cs p)"

definition pool_Remove :: "nat \<Rightarrow> ConnectionPool \<Rightarrow> ConnectionPool" where
  "pool_Remove a p = remove_loop a [] (pl_connections p) p"

text \<open>\<open>close(p.done)\<close> panics when the pool is closed already.\<close>

definition pool_Close :: "ConnectionPool \<Rightarrow> ConnectionPool outcome" where
  "pool_Close p =
     (if pl_closed p then Panic ''close of closed channel''
      else Return ((fold close_conn (pl_connections p) p)\<lparr>pl_closed := True, pl_connections := []\<rparr>))"

fun cleanup_loop :: "time \<Rightarrow> nat list \<Rightarrow> nat list \<Rightarrow> ConnectionPool \<Rightarrow> ConnectionPool" where
  "cleanup_loop now alive [] p = p\<lparr>pl_connections := alive\<rparr>"
| "cleanup_loop now alive (a # as) p =
     (if pn_InUse (conn_at p a) then cleanup_loop now (alive @ [a]) as p
      else if pcf_IdleTimeout (pl_config p) < time_sub now (pn_LastUsedAt (conn_at p a))
      then cleanup_loop now alive as (close_conn a p)
      else cleanup_loop now (alive @ [a]) as p)"

definition pool_cleanup :: "time \<Rightarrow> ConnectionPool \<Rightarrow> ConnectionPool" where
  "pool_cleanup now p = (if pl_closed p then p else cleanup_loop now [] (pl_connections p) p)"

record PoolStats =
  pst_URL :: string
  pst_Total :: int
  pst_Active :: int
  pst_Idle :: int

fun stats_loop :: "ConnectionPool \<Rightarrow> nat list \<Rightarrow> PoolStats \<Rightarrow> PoolStats" where
  "stats_loop p [] st = st"
| "stats_loop p (a # as) st =
     stats_loop p as (if pn_InUse (conn_at p a) then st\<lparr>pst_Active := wrap64 (pst_Active st + 1)\<rparr>
       else st\<lparr>pst_Idle := wrap64 (pst_Idle st + 1)\<rparr>)"

definition pool_Stats :: "ConnectionPool \<Rightarrow> PoolStats" where
  "pool_Stats p = stats_loop p (pl_connections p)
     \<lparr>pst_URL = pl_url p, pst_Total = int (length (pl_connections p)), pst_Active = 0, pst_Idle = 0\<rparr>"

section \<open>The background loops\<close>

text \<open>
  Between two rounds of a loop other goroutines use the pool; their effect is part of the
  event (\<open>world\<close>).
\<close>

type_synonym world = "ConnectionPool \<Rightarrow> ConnectionPool"

datatype pool_tick = PoolTick time | PoolDone

fun healthCheck_loop :: "(world \<times> pool_tick) list \<Rightarrow> ConnectionPool \<Rightarrow> ConnectionPool" where
  "healthCheck_loop [] p = p"
| "healthCheck_loop ((w, PoolDone) # es) p = w p"
| "healthCheck_loop ((w, PoolTick now) # es) p = healthCheck_loop es (pool_cleanup now (w p))"

definition pool_healthCheck :: "(world \<times> pool_tick) list \<Rightarrow> ConnectionPool \<Rightarrow> ConnectionPool outcome" where
  "pool_healthCheck es p =
     (if pcf_HealthCheckInterval (pl_config p) \<le> 0 then Panic ''non-positive interval for NewTicker''
      else Return (healthCheck_loop es p))"

text \<open>
  \<open>GetWithWait\<close>: what the \<open>select\<close> of each round receives, with its time. \<open>None\<close> is a call that
  has not returned when the events are used up.
\<close>

datatype wait_event = WaitCtx go_error | WaitTimeout | WaitTick get_env

definition wait_timeout :: "PoolConfig \<Rightarrow> duration" where
  "wait_timeout config = (if pcf_WaitTimeout config = 0 then 10 * second else pcf_WaitTimeout config)"

fun wait_loop ::
  "(time \<times> world \<times> wait_event) list \<Rightarrow> ConnectionPool \<Rightarrow> ((go_error + nat) \<times> ConnectionPool) option" where
  "wait_loop [] p = None"
| "wait_loop ((t, w, WaitCtx err) # es) p = Some (Inl err, w p)"
| "wait_loop ((t, w, WaitTimeout) # es) p = Some (Inl ErrPoolExhausted, w p)"
| "wait_loop ((t, w, WaitTick env) # es) p =
     (let (r, p') = pool_Get env (w p)
      in if r \<noteq> Inl ErrPoolExhausted then Some (r, p') else wait_loop es p')"

definition GetWithWait ::
  "get_env \<Rightarrow> (time \<times> world \<times> wait_event) list \<Rightarrow> ConnectionPool \<Rightarrow>
     ((go_error + nat) \<times> ConnectionPool) option" where
  "GetWithWait env es p =
     (let (r, p') = pool_Get env p
      in if r \<noteq> Inl ErrPoolExhausted then Some (r, p') else wait_loop es p')"

text \<open>\<open>time.After(d)\<close> armed at \<open>start\<close> delivers no earlier than \<open>start + d\<close>.\<close>

definition timer_law :: "time \<Rightarrow> duration \<Rightarrow> (time \<times> world \<times> wait_event) list \<Rightarrow> bool" where
  "timer_law start d es \<longleftrightarrow> (\<forall>(t, w, e)\<in>set es. e = WaitTimeout \<longrightarrow> start + d \<le> t)"

section \<open>Closing connections\<close>

lemma close_conn_simps [simp]:
  "pl_url (close_conn a p) = pl_url p" "pl_config (close_conn a p) = pl_config p"
  "pl_connections (close_conn a p) = pl_connections p" "pl_closed (close_conn a p) = pl_closed p"
  "length (pl_heap (close_conn a p)) = length (pl_heap p)"
  by (simp_all add: close_conn_def set_conn_def)

lemma set_conn_simps [simp]:
  "pl_url (set_conn a f p) = pl_url p" "pl_config (set_conn a f p) = pl_config p"
  "pl_connections (set_conn a f p) = pl_connections p" "pl_closed (set_conn a f p) = pl_closed p"
  "length (pl_heap (set_conn a f p)) = length (pl_heap p)"
  by (simp_all add: set_conn_def)

lemma set_conn_at:
  "b < length (pl_heap p) \<Longrightarrow> conn_at (set_conn a f p) b = (if b = a then f (conn_at p a) else conn_at p b)"
  by (simp add: conn_at_def set_conn_def nth_update_if)

lemma close_conn_at:
  "b < length (pl_heap p) \<Longrightarrow>
     conn_at (close_conn a p) b = (if b = a then (conn_at p a)\<lparr>pn_open := False\<rparr> else conn_at p b)"
  by (simp add: close_conn_def set_conn_at)

lemma close_conn_out: "\<not> a < length (pl_heap p) \<Longrightarrow> conn_at (close_conn a p) b = conn_at p b"
  by (simp add: conn_at_def close_conn_def set_conn_def list_update_beyond)

lemma close_conn_in:
  "a < length (pl_heap p) \<Longrightarrow>
     conn_at (close_conn a p) b = (if b = a then (conn_at p a)\<lparr>pn_open := False\<rparr> else conn_at p b)"
  by (simp add: conn_at_def close_conn_def set_conn_def)

lemma close_conn_frame [simp]:
  "pn_InUse (conn_at (close_conn a p) b) = pn_InUse (conn_at p b)"
  "pn_LastUsedAt (conn_at (close_conn a p) b) = pn_LastUsedAt (conn_at p b)"
  "pn_CreatedAt (conn_at (close_conn a p) b) = pn_CreatedAt (conn_at p b)"
  by (cases "a < length (pl_heap p)"; simp add: close_conn_in close_conn_out)+

lemma close_all_simps [simp]:
  "pl_url (fold close_conn as p) = pl_url p" "pl_config (fold close_conn as p) = pl_config p"
  "pl_connections (fold close_conn as p) = pl_connections p"
  "pl_closed (fold close_conn as p) = pl_closed p"
  "length (pl_heap (fold close_conn as p)) = length (pl_heap p)"
  "pn_InUse (conn_at (fold close_conn as p) b) = pn_InUse (conn_at p b)"
  "pn_CreatedAt (conn_at (fold close_conn as p) b) = pn_CreatedAt (conn_at p b)"
  "pn_LastUsedAt (conn_at (fold close_conn as p) b) = pn_LastUsedAt (conn_at p b)"
  by (induction as arbitrary: p) simp_all

lemma close_all_at:
  "b < length (pl_heap p) \<Longrightarrow>
     conn_at (fold close_conn as p) b = (if b \<in> set as then (conn_at p b)\<lparr>pn_open := False\<rparr> else conn_at p b)"
  by (induction as arbitrary: p) (simp_all add: close_conn_at)

lemma conn_at_connections [simp]:
  "conn_at (p\<lparr>pl_connections := cs\<rparr>) a = conn_at p a" "conn_at (p\<lparr>pl_closed := c\<rparr>) a = conn_at p a"
  by (simp_all add: conn_at_def)

lemma remove_loop_eq:
  "remove_loop a seen cs p =
     (if a \<in> set cs then (close_conn a p)\<lparr>pl_connections := seen @ remove1 a cs\<rparr> else p)"
  by (induction a seen cs p rule: remove_loop.induct) auto

lemma pool_Remove_eq:
  "pool_Remove a p =
     (if a \<in> set (pl_connections p)
      then (close_conn a p)\<lparr>pl_connections := remove1 a (pl_connections p)\<rparr> else p)"
  by (simp add: pool_Remove_def remove_loop_eq)

text \<open>A connection that \<open>cleanup\<close> drops.\<close>

definition stale :: "time \<Rightarrow> ConnectionPool \<Rightarrow> nat \<Rightarrow> bool" where
  "stale now p a \<longleftrightarrow> \<not> pn_InUse (conn_at p a) \<and>
     pcf_IdleTimeout (pl_config p) < time_sub now (pn_LastUsedAt (conn_at p a))"

lemma stale_close [simp]: "stale now (close_conn a p) = stale now p"
  by (simp add: fun_eq_iff stale_def)

lemma cleanup_loop_eq:
  "cleanup_loop now alive as p =
     (fold close_conn (filter (stale now p) as) p)
       \<lparr>pl_connections := alive @ filter (\<lambda>a. \<not> stale now p a) as\<rparr>"
  by (induction now alive as p rule: cleanup_loop.induct) (simp_all add: stale_def [abs_def])

lemma pool_cleanup_eq:
  "\<not> pl_closed p \<Longrightarrow> pool_cleanup now p =
     (fold close_conn (filter (stale now p) (pl_connections p)) p)
       \<lparr>pl_connections := filter (\<lambda>a. \<not> stale now p a) (pl_connections p)\<rparr>"
  by (simp add: pool_cleanup_def cleanup_loop_eq)

lemma find_idle_Some:
  "find_idle env p i as = Some a \<Longrightarrow> a \<in> set as \<and> \<not> pn_InUse (conn_at p a)"
  by (induction env p i as rule: find_idle.induct) (auto split: if_splits)

lemma find_idle_None:
  "find_idle env p i as = None \<longleftrightarrow>
     (\<forall>j < length as. pn_InUse (conn_at p (as ! j)) \<or>
        \<not> isHealthy (pl_config p) (pv_clock env (i + j)) (conn_at p (as ! j)))"
proof (induction env p i as rule: find_idle.induct)
  case (2 env p i a as)
  then show ?case
    by (simp add: All_less_Suc2)
qed simp

section \<open>The invariant\<close>

text \<open>
  The pool lists each connection once, never more than \<open>MaxConnections\<close>, and a connection is
  listed exactly when its socket is open: none leaks and none is handed out closed.
\<close>

definition pool_inv :: "ConnectionPool \<Rightarrow> bool" where
  "pool_inv p \<longleftrightarrow>
     distinct (pl_connections p) \<and> set (pl_connections p) \<subseteq> {..<length (pl_heap p)} \<and>
     (\<forall>a < length (pl_heap p). pn_open (conn_at p a) \<longleftrightarrow> a \<in> set (pl_connections p)) \<and>
     int (length (pl_connections p)) \<le> pcf_MaxConnections (pl_config p) \<and>
     (pl_closed p \<longrightarrow> pl_connections p = [])"

lemma pool_inv_new: "NewConnectionPool url config = Return p \<Longrightarrow> pool_inv p"
  by (auto simp: NewConnectionPool_def pool_inv_def split: if_splits)

text \<open>The calls a client or the background loop makes.\<close>

datatype pool_call = CGet get_env | CPut time nat | CRemove nat | CClose | CCleanup time

text \<open>The pool after a call; a call that panics (a second \<open>Close\<close>) leaves it as it is.\<close>

fun pool_do :: "pool_call \<Rightarrow> ConnectionPool \<Rightarrow> ConnectionPool" where
  "pool_do (CGet env) p = snd (pool_Get env p)"
| "pool_do (CPut now a) p = pool_Put now a p"
| "pool_do (CRemove a) p = pool_Remove a p"
| "pool_do CClose p = (case pool_Close p of Return q \<Rightarrow> q | Panic e \<Rightarrow> p)"
| "pool_do (CCleanup now) p = pool_cleanup now p"

lemma pool_Get_cases:
  obtains (closed) "pool_Get env p = (Inl ErrPoolClosed, p)" "pl_closed p"
  | (idle) a where "pool_Get env p =
      (Inr a, set_conn a (\<lambda>c. c\<lparr>pn_InUse := True, pn_LastUsedAt := pv_now env\<rparr>) p)"
      "a \<in> set (pl_connections p)" "\<not> pn_InUse (conn_at p a)" "\<not> pl_closed p"
  | (fresh) c where "pool_Get env p = (Inr (length (pl_heap p)),
        p\<lparr>pl_heap := pl_heap p @ [c], pl_connections := pl_connections p @ [length (pl_heap p)]\<rparr>)"
      "pn_open c" "pn_InUse c" "int (length (pl_connections p)) < pcf_MaxConnections (pl_config p)" "\<not> pl_closed p"
  | (failed) err where "pool_Get env p = (Inl err, p)" "\<not> pl_closed p"
proof (cases "pl_closed p")
  case True
  then show thesis by (intro closed) (simp_all add: pool_Get_def)
next
  case False
  note nc = False
  show thesis
  proof (cases "find_idle env p 0 (pl_connections p)")
    case (Some a)
    from find_idle_Some [OF this] Some nc show thesis by (intro idle [of a]) (simp_all add: pool_Get_def)
  next
    case None
    note fi = None
    show thesis
    proof (cases "int (length (pl_connections p)) < pcf_MaxConnections (pl_config p)")
      case True
      with fi nc show thesis
        by (cases "pv_dial env (httpToWS (pl_url p))")
          (auto simp: pool_Get_def createConnection_def intro: fresh failed)
    next
      case False
      with fi nc show thesis by (intro failed [of ErrPoolExhausted]) (simp_all add: pool_Get_def)
    qed
  qed
qed

lemma conn_at_append:
  "a \<le> length (pl_heap p) \<Longrightarrow> conn_at (p\<lparr>pl_heap := pl_heap p @ [c]\<rparr>) a =
     (if a = length (pl_heap p) then c else conn_at p a)"
  by (auto simp: conn_at_def nth_append)

lemma pool_inv_Get:
  assumes "pool_inv p"
  shows "pool_inv (snd (pool_Get env p))"
proof (cases rule: pool_Get_cases [of env p])
  case (idle a)
  with assms show ?thesis by (auto simp: pool_inv_def set_conn_at)
next
  case (fresh c)
  with assms show ?thesis
    by (auto simp: pool_inv_def conn_at_append less_Suc_eq_le subset_iff)
qed (use assms in simp_all)

lemma pool_inv_do: "pool_inv p \<Longrightarrow> pool_inv (pool_do c p)"
proof (cases c)
  case (CPut now a)
  assume "pool_inv p"
  with CPut show ?thesis by (auto simp: pool_inv_def pool_Put_def set_conn_at)
next
  case (CRemove a)
  assume "pool_inv p"
  with CRemove show ?thesis
    by (auto simp: pool_inv_def pool_Remove_eq close_conn_at length_remove1 dest: set_remove1_subset [THEN subsetD])
next
  case CClose
  assume "pool_inv p"
  with CClose show ?thesis by (auto simp: pool_inv_def pool_Close_def close_all_at)
next
  case (CCleanup now)
  assume p: "pool_inv p"
  have "int (length (filter (\<lambda>a. \<not> stale now p a) (pl_connections p))) \<le> pcf_MaxConnections (pl_config p)"
  proof -
    have "length (filter (\<lambda>a. \<not> stale now p a) (pl_connections p)) \<le> length (pl_connections p)" by simp
    moreover have "int (length (pl_connections p)) \<le> pcf_MaxConnections (pl_config p)"
      using p by (simp add: pool_inv_def)
    ultimately show ?thesis by linarith
  qed
  with p CCleanup show ?thesis
    by (cases "pl_closed p") (auto simp: pool_inv_def pool_cleanup_def cleanup_loop_eq close_all_at)
qed (simp add: pool_inv_Get)

section \<open>The pool as a set of resources\<close>

text \<open>A call whose address, if any, is that of a connection.\<close>

fun call_valid :: "pool_call \<Rightarrow> ConnectionPool \<Rightarrow> bool" where
  "call_valid (CPut now a) p = (a < length (pl_heap p))"
| "call_valid c p = True"

inductive pool_step :: "ConnectionPool \<Rightarrow> ConnectionPool \<Rightarrow> bool" where
  "call_valid c p \<Longrightarrow> pool_step p (pool_do c p)"

inductive_cases pool_stepE: "pool_step p q"

interpretation pool_safe: invariant_system pool_step pool_inv
  by unfold_locales (auto elim!: pool_stepE intro: pool_inv_do)

text \<open>
  The specification. A resource is busy, with the time it was created, or idle, with the time
  it was created and the time it was put back; \<open>ap_known\<close> are all there ever were. A label is a
  call with what its caller sees: for \<open>Get\<close> the interval in which it ran, the answers to
  dialling, and its result.
\<close>

record apool =
  ap_config :: PoolConfig
  ap_target :: string
  ap_closed :: bool
  ap_busy :: "nat \<rightharpoonup> time"
  ap_idle :: "nat \<rightharpoonup> time \<times> time"
  ap_known :: "nat set"

datatype pool_event =
    Got time time "string \<Rightarrow> go_error option" "go_error + nat"
  | Released time nat
  | Dropped nat
  | Reaped time
  | Shut bool

text \<open>An idle resource is fit for use while neither its idle time nor its age is over the limit.\<close>

definition fit :: "PoolConfig \<Rightarrow> time \<Rightarrow> time \<times> time \<Rightarrow> bool" where
  "fit config now = (\<lambda>(born, since).
     time_sub now since \<le> pcf_IdleTimeout config \<and>
     (pcf_MaxLifetime config \<le> 0 \<or> time_sub now born \<le> pcf_MaxLifetime config))"

definition ap_live :: "apool \<Rightarrow> nat set" where
  "ap_live s = dom (ap_busy s) \<union> dom (ap_idle s)"

definition none_fit :: "time \<Rightarrow> apool \<Rightarrow> bool" where
  "none_fit now s \<longleftrightarrow> (\<forall>a v. ap_idle s a = Some v \<longrightarrow> \<not> fit (ap_config s) now v)"

text \<open>
  \<open>Get\<close> reuses an idle resource that is fit, and only such; when none is fit and there is room it
  dials, and a new resource is one that never existed before; it reports an exhausted pool
  only when none is fit and the pool is full, and a closed pool exactly when it is closed.
\<close>

inductive apool_step :: "apool \<Rightarrow> pool_event \<Rightarrow> apool \<Rightarrow> bool" where
  get_closed: "ap_closed s \<Longrightarrow> apool_step s (Got lo hi dial (Inl ErrPoolClosed)) s"
| reuse: "\<not> ap_closed s \<Longrightarrow> ap_idle s a = Some (born, since) \<Longrightarrow> fit (ap_config s) lo (born, since) \<Longrightarrow>
     apool_step s (Got lo hi dial (Inr a))
       (s\<lparr>ap_busy := (ap_busy s)(a \<mapsto> born), ap_idle := (ap_idle s)(a := None)\<rparr>)"
| open_new: "\<not> ap_closed s \<Longrightarrow> none_fit hi s \<Longrightarrow>
     int (card (ap_live s)) < pcf_MaxConnections (ap_config s) \<Longrightarrow> dial (ap_target s) = None \<Longrightarrow>
     a \<notin> ap_known s \<Longrightarrow> lo \<le> born \<Longrightarrow> born \<le> hi \<Longrightarrow>
     apool_step s (Got lo hi dial (Inr a))
       (s\<lparr>ap_busy := (ap_busy s)(a \<mapsto> born), ap_known := insert a (ap_known s)\<rparr>)"
| dial_failed: "\<not> ap_closed s \<Longrightarrow> none_fit hi s \<Longrightarrow>
     int (card (ap_live s)) < pcf_MaxConnections (ap_config s) \<Longrightarrow> dial (ap_target s) = Some err \<Longrightarrow>
     apool_step s (Got lo hi dial (Inl err)) s"
| exhausted: "\<not> ap_closed s \<Longrightarrow> none_fit hi s \<Longrightarrow>
     int (card (ap_live s)) = pcf_MaxConnections (ap_config s) \<Longrightarrow>
     apool_step s (Got lo hi dial (Inl ErrPoolExhausted)) s"
| release: "ap_busy s a = Some born \<or> ap_idle s a = Some (born, since) \<Longrightarrow>
     apool_step s (Released now a)
       (s\<lparr>ap_busy := (ap_busy s)(a := None), ap_idle := (ap_idle s)(a \<mapsto> (born, now))\<rparr>)"
| release_gone: "a \<in> ap_known s - ap_live s \<Longrightarrow> apool_step s (Released now a) s"
| drop: "apool_step s (Dropped a)
     (s\<lparr>ap_busy := (ap_busy s)(a := None), ap_idle := (ap_idle s)(a := None)\<rparr>)"
| reap: "apool_step s (Reaped now)
     (s\<lparr>ap_idle := ap_idle s |` {a. \<forall>born since. ap_idle s a = Some (born, since) \<longrightarrow>
        time_sub now since \<le> pcf_IdleTimeout (ap_config s)}\<rparr>)"
| shut: "\<not> ap_closed s \<Longrightarrow>
     apool_step s (Shut True) (s\<lparr>ap_closed := True, ap_busy := Map.empty, ap_idle := Map.empty\<rparr>)"
| shut_twice: "ap_closed s \<Longrightarrow> apool_step s (Shut False) s"

definition pool_abs :: "ConnectionPool \<Rightarrow> apool" where
  "pool_abs p =
     \<lparr>ap_config = pl_config p, ap_target = httpToWS (pl_url p), ap_closed = pl_closed p,
      ap_busy = (\<lambda>a. if a \<in> set (pl_connections p) \<and> pn_InUse (conn_at p a)
        then Some (pn_CreatedAt (conn_at p a)) else None),
      ap_idle = (\<lambda>a. if a \<in> set (pl_connections p) \<and> \<not> pn_InUse (conn_at p a)
        then Some (pn_CreatedAt (conn_at p a), pn_LastUsedAt (conn_at p a)) else None),
      ap_known = {..<length (pl_heap p)}\<rparr>"

text \<open>The code's steps with the same labels; every clock reading of \<open>Get\<close> lies in its interval.\<close>

definition reads_within :: "time \<Rightarrow> time \<Rightarrow> get_env \<Rightarrow> bool" where
  "reads_within lo hi env \<longleftrightarrow> lo \<le> pv_now env \<and> pv_now env \<le> hi \<and>
     (\<forall>i. lo \<le> fst (pv_clock env i) \<and> fst (pv_clock env i) \<le> hi \<and>
          lo \<le> snd (pv_clock env i) \<and> snd (pv_clock env i) \<le> hi)"

inductive pool_lstep :: "ConnectionPool \<Rightarrow> pool_event \<Rightarrow> ConnectionPool \<Rightarrow> bool" where
  pool_get: "reads_within lo hi env \<Longrightarrow> pool_Get env p = (r, q) \<Longrightarrow>
     pool_lstep p (Got lo hi (pv_dial env) r) q"
| pool_put: "a < length (pl_heap p) \<Longrightarrow> pool_lstep p (Released now a) (pool_Put now a p)"
| pool_remove: "pool_lstep p (Dropped a) (pool_Remove a p)"
| pool_reap: "pool_lstep p (Reaped now) (pool_cleanup now p)"
| pool_close: "pool_Close p = Return q \<Longrightarrow> pool_lstep p (Shut True) q"
| pool_close_twice: "pool_Close p = Panic e \<Longrightarrow> pool_lstep p (Shut False) p"

inductive_cases pool_lstepE: "pool_lstep p l q"

lemma set_conn_listed:
  "pool_inv p \<Longrightarrow> b \<in> set (pl_connections p) \<Longrightarrow>
     conn_at (set_conn a f p) b = (if b = a then f (conn_at p a) else conn_at p b)"
  by (rule set_conn_at) (auto simp: pool_inv_def)

lemma pool_live: "ap_live (pool_abs p) = set (pl_connections p)"
  by (auto simp: ap_live_def pool_abs_def dom_def)

lemma pool_live_card:
  "pool_inv p \<Longrightarrow> card (ap_live (pool_abs p)) = length (pl_connections p)"
  by (simp add: pool_live pool_inv_def distinct_card)

lemma isHealthy_fit:
  assumes "isHealthy config (t, u) c" and "lo \<le> t" and "lo \<le> u"
  shows "fit config lo (pn_CreatedAt c, pn_LastUsedAt c)"
  using assms time_sub_mono [of lo t "pn_LastUsedAt c"] time_sub_mono [of lo u "pn_CreatedAt c"]
  by (auto simp: isHealthy_def fit_def split: if_splits)

lemma unhealthy_unfit:
  assumes "\<not> isHealthy config (t, u) c" and "t \<le> hi" and "u \<le> hi"
  shows "\<not> fit config hi (pn_CreatedAt c, pn_LastUsedAt c)"
  using assms time_sub_mono [of t hi "pn_LastUsedAt c"] time_sub_mono [of u hi "pn_CreatedAt c"]
  by (auto simp: isHealthy_def fit_def split: if_splits)

lemma find_idle_fit:
  assumes "find_idle env p i as = Some a" and "reads_within lo hi env"
  shows "fit (pl_config p) lo (pn_CreatedAt (conn_at p a), pn_LastUsedAt (conn_at p a))"
  using assms
proof (induction env p i as rule: find_idle.induct)
  case (2 env p i b as)
  then show ?case
    using isHealthy_fit [of "pl_config p" "fst (pv_clock env i)" "snd (pv_clock env i)" "conn_at p b" lo]
    by (auto simp: reads_within_def split: if_splits)
qed simp

lemma find_idle_none_fit:
  assumes "find_idle env p 0 (pl_connections p) = None" and "reads_within lo hi env"
  shows "none_fit hi (pool_abs p)"
proof -
  have "\<not> fit (pl_config p) hi (pn_CreatedAt (conn_at p a), pn_LastUsedAt (conn_at p a))"
    if "a \<in> set (pl_connections p)" and "\<not> pn_InUse (conn_at p a)" for a
  proof -
    from that(1) obtain j where j: "j < length (pl_connections p)" "a = pl_connections p ! j"
      by (auto simp: in_set_conv_nth)
    with assms(1) that(2) have "\<not> isHealthy (pl_config p) (pv_clock env j) (conn_at p a)"
      by (auto simp: find_idle_None)
    with assms(2) unhealthy_unfit [of _ "fst (pv_clock env j)" "snd (pv_clock env j)"]
    show ?thesis by (simp add: reads_within_def)
  qed
  then show ?thesis by (auto simp: none_fit_def pool_abs_def)
qed

lemma pool_abs_simps [simp]:
  "ap_config (pool_abs p) = pl_config p" "ap_target (pool_abs p) = httpToWS (pl_url p)"
  "ap_closed (pool_abs p) = pl_closed p" "ap_known (pool_abs p) = {..<length (pl_heap p)}"
  by (simp_all add: pool_abs_def)

lemma pool_abs_busy:
  "a \<in> set (pl_connections p) \<Longrightarrow> pn_InUse (conn_at p a) \<Longrightarrow>
     ap_busy (pool_abs p) a = Some (pn_CreatedAt (conn_at p a))"
  by (simp add: pool_abs_def)

lemma pool_abs_idle:
  "a \<in> set (pl_connections p) \<Longrightarrow> \<not> pn_InUse (conn_at p a) \<Longrightarrow>
     ap_idle (pool_abs p) a = Some (pn_CreatedAt (conn_at p a), pn_LastUsedAt (conn_at p a))"
  by (simp add: pool_abs_def)

lemma pool_Get_dial:
  assumes "\<not> pl_closed p" and "find_idle env p 0 (pl_connections p) = None"
  shows "pool_Get env p =
    (if int (length (pl_connections p)) < pcf_MaxConnections (pl_config p)
     then case pv_dial env (httpToWS (pl_url p)) of
         Some err \<Rightarrow> (Inl err, p)
       | None \<Rightarrow> (Inr (length (pl_heap p)),
           p\<lparr>pl_heap := pl_heap p @ [\<lparr>pn_open = True, pn_URL = pl_url p, pn_CreatedAt = pv_now env,
               pn_LastUsedAt = pv_now env, pn_InUse = True\<rparr>],
             pl_connections := pl_connections p @ [length (pl_heap p)]\<rparr>)
     else (Inl ErrPoolExhausted, p))"
  using assms by (simp add: pool_Get_def createConnection_def split: option.split)

lemma pool_abs_reuse:
  assumes "pool_inv p" and "a \<in> set (pl_connections p)"
  shows "pool_abs (set_conn a (\<lambda>c. c\<lparr>pn_InUse := True, pn_LastUsedAt := now\<rparr>) p) =
    (pool_abs p)\<lparr>ap_busy := (ap_busy (pool_abs p))(a \<mapsto> pn_CreatedAt (conn_at p a)),
      ap_idle := (ap_idle (pool_abs p))(a := None)\<rparr>"
  using assms by (auto simp: pool_abs_def set_conn_listed fun_eq_iff split: if_splits)

lemma pool_abs_new:
  assumes "pool_inv p" and "pn_InUse c"
  shows "pool_abs (p\<lparr>pl_heap := pl_heap p @ [c], pl_connections := pl_connections p @ [length (pl_heap p)]\<rparr>) =
    (pool_abs p)\<lparr>ap_busy := (ap_busy (pool_abs p))(length (pl_heap p) \<mapsto> pn_CreatedAt c),
      ap_known := insert (length (pl_heap p)) (ap_known (pool_abs p))\<rparr>"
proof -
  have old: "conn_at (p\<lparr>pl_heap := pl_heap p @ [c]\<rparr>) a = conn_at p a \<and> a \<noteq> length (pl_heap p)"
    if "a \<in> set (pl_connections p)" for a
    using assms(1) that by (auto simp: pool_inv_def conn_at_append)
  have new: "conn_at (p\<lparr>pl_heap := pl_heap p @ [c]\<rparr>) (length (pl_heap p)) = c"
    by (simp add: conn_at_append)
  show ?thesis
    using assms(2) by (auto simp: pool_abs_def fun_eq_iff lessThan_Suc new old)
qed

lemma pool_sim_Get:
  assumes "pool_inv p" and "reads_within lo hi env" and "pool_Get env p = (r, q)"
  shows "apool_step (pool_abs p) (Got lo hi (pv_dial env) r) (pool_abs q)"
proof (cases "pl_closed p")
  case True
  with assms(3) show ?thesis by (auto simp: pool_Get_def intro: get_closed)
next
  case False
  note nc = False
  have full: "int (length (pl_connections p)) \<le> pcf_MaxConnections (pl_config p)"
    using assms(1) by (simp add: pool_inv_def)
  show ?thesis
  proof (cases "find_idle env p 0 (pl_connections p)")
    case (Some a)
    from find_idle_Some [OF this] have a: "a \<in> set (pl_connections p)" "\<not> pn_InUse (conn_at p a)" by auto
    from assms(3) Some nc have "r = Inr a"
      and "q = set_conn a (\<lambda>c. c\<lparr>pn_InUse := True, pn_LastUsedAt := pv_now env\<rparr>) p"
      by (simp_all add: pool_Get_def)
    with reuse [OF _ pool_abs_idle [OF a]] find_idle_fit [OF Some assms(2)] pool_abs_reuse [OF assms(1) a(1)] nc
    show ?thesis by simp
  next
    case None
    note g = pool_Get_dial [OF nc None] and nf = find_idle_none_fit [OF None assms(2)]
    show ?thesis
    proof (cases "int (length (pl_connections p)) < pcf_MaxConnections (pl_config p)")
      case True
      show ?thesis
      proof (cases "pv_dial env (httpToWS (pl_url p))")
        case d: None
        with g True assms(3) have "r = Inr (length (pl_heap p))" and
          "q = p\<lparr>pl_heap := pl_heap p @ [\<lparr>pn_open = True, pn_URL = pl_url p, pn_CreatedAt = pv_now env,
             pn_LastUsedAt = pv_now env, pn_InUse = True\<rparr>],
             pl_connections := pl_connections p @ [length (pl_heap p)]\<rparr>" by auto
        with open_new [of "pool_abs p" hi "pv_dial env" "length (pl_heap p)" lo "pv_now env"]
          nf nc True d assms(1,2) show ?thesis
          by (simp add: pool_live_card pool_abs_new reads_within_def)
      next
        case (Some err)
        with g True assms(3) dial_failed [of "pool_abs p" hi "pv_dial env" err lo] nf nc assms(1)
        show ?thesis by (auto simp: pool_live_card)
      qed
    next
      case False
      with g assms(3) exhausted [of "pool_abs p" hi lo "pv_dial env"] nf nc full assms(1)
      show ?thesis by (auto simp: pool_live_card)
    qed
  qed
qed

lemma pool_sim_Put:
  assumes "pool_inv p" and "a < length (pl_heap p)"
  shows "apool_step (pool_abs p) (Released now a) (pool_abs (pool_Put now a p))"
proof (cases "a \<in> set (pl_connections p)")
  case True
  have "pool_abs (pool_Put now a p) = (pool_abs p)\<lparr>ap_busy := (ap_busy (pool_abs p))(a := None),
      ap_idle := (ap_idle (pool_abs p))(a \<mapsto> (pn_CreatedAt (conn_at p a), now))\<rparr>"
    using assms(1) True by (auto simp: pool_abs_def pool_Put_def set_conn_listed fun_eq_iff split: if_splits)
  with release [of "pool_abs p" a "pn_CreatedAt (conn_at p a)" "pn_LastUsedAt (conn_at p a)" now]
    pool_abs_busy [OF True] pool_abs_idle [OF True] show ?thesis by fastforce
next
  case False
  have "pool_abs (pool_Put now a p) = pool_abs p"
    using assms(1) False by (auto simp: pool_abs_def pool_Put_def set_conn_listed fun_eq_iff split: if_splits)
  with release_gone [of a "pool_abs p" now] False assms(2) show ?thesis by (simp add: pool_live)
qed

lemma pool_sim_Remove:
  assumes "pool_inv p"
  shows "apool_step (pool_abs p) (Dropped a) (pool_abs (pool_Remove a p))"
proof -
  have "pool_abs (pool_Remove a p) = (pool_abs p)
      \<lparr>ap_busy := (ap_busy (pool_abs p))(a := None), ap_idle := (ap_idle (pool_abs p))(a := None)\<rparr>"
    using assms by (auto simp: pool_abs_def pool_inv_def pool_Remove_eq fun_eq_iff)
  with drop [of "pool_abs p" a] show ?thesis by simp
qed

lemma pool_sim_cleanup:
  assumes "pool_inv p"
  shows "apool_step (pool_abs p) (Reaped now) (pool_abs (pool_cleanup now p))"
proof -
  have "pool_abs (pool_cleanup now p) = (pool_abs p)\<lparr>ap_idle := ap_idle (pool_abs p) |`
      {a. \<forall>born since. ap_idle (pool_abs p) a = Some (born, since) \<longrightarrow>
        time_sub now since \<le> pcf_IdleTimeout (ap_config (pool_abs p))}\<rparr>"
  proof (cases "pl_closed p")
    case True
    with assms show ?thesis by (auto simp: pool_cleanup_def pool_abs_def pool_inv_def restrict_map_def)
  next
    case False
    then show ?thesis
      by (auto simp: pool_cleanup_eq pool_abs_def stale_def restrict_map_def fun_eq_iff)
  qed
  with reap [of "pool_abs p" now] show ?thesis by simp
qed

lemma pool_sim_Close:
  "pool_Close p = Return q \<Longrightarrow> apool_step (pool_abs p) (Shut True) (pool_abs q)"
  using shut [of "pool_abs p"]
  by (auto simp: pool_Close_def pool_abs_def split: if_splits)

interpretation pool: labelled_simulation pool_lstep pool_inv apool_step pool_abs
proof
  fix p l q
  assume inv: "pool_inv p" and step: "pool_lstep p l q"
  from step inv show "pool_inv q"
  proof cases
    case (pool_get lo hi env r)
    with pool_inv_Get [OF inv, of env] show ?thesis by simp
  next
    case pool_close
    with pool_inv_do [OF inv, of CClose] show ?thesis by simp
  qed (use inv pool_inv_do [OF inv, of "CPut _ _"] pool_inv_do [OF inv, of "CRemove _"]
      pool_inv_do [OF inv, of "CCleanup _"] in auto)
  from step inv show "apool_step (pool_abs p) l (pool_abs q)"
    by cases (auto intro: pool_sim_Get pool_sim_Put pool_sim_Remove pool_sim_cleanup pool_sim_Close
        shut_twice simp: pool_Close_def split: if_splits)
qed

lemma pool_inv_run: "pool_inv p \<Longrightarrow> pool_inv (fold pool_do cs p)"
  by (induction cs arbitrary: p) (simp_all add: pool_inv_do)

section \<open>Connections in use\<close>

definition held :: "ConnectionPool \<Rightarrow> nat \<Rightarrow> bool" where
  "held p a \<longleftrightarrow> a < length (pl_heap p) \<and> pn_InUse (conn_at p a)"

lemma held_do:
  assumes "held p a" and "\<forall>t. c \<noteq> CPut t a"
  shows "held (pool_do c p) a"
proof (cases c)
  case (CGet env)
  then show ?thesis
    using assms(1)
    by (cases rule: pool_Get_cases [of env p]) (auto simp: held_def set_conn_at conn_at_append)
next
  case (CPut t b)
  with assms show ?thesis by (auto simp: held_def pool_Put_def set_conn_at)
next
  case (CRemove b)
  with assms(1) show ?thesis by (simp add: held_def pool_Remove_eq)
next
  case CClose
  with assms(1) show ?thesis by (simp add: held_def pool_Close_def)
next
  case (CCleanup t)
  with assms(1) show ?thesis by (simp add: held_def pool_cleanup_def cleanup_loop_eq)
qed

lemma held_run: "held p a \<Longrightarrow> \<forall>t. CPut t a \<notin> set cs \<Longrightarrow> held (fold pool_do cs p) a"
proof (induction cs arbitrary: p)
  case (Cons c cs)
  from Cons.prems have "held (pool_do c p) a" by (intro held_do) auto
  with Cons show ?case by simp
qed simp

lemma listed_do:
  assumes "held p a" and "a \<in> set (pl_connections p)" and "c \<noteq> CRemove a" and "c \<noteq> CClose"
  shows "a \<in> set (pl_connections (pool_do c p))"
proof (cases c)
  case (CGet env)
  then show ?thesis
    using assms(2) by (cases rule: pool_Get_cases [of env p]) auto
next
  case (CRemove b)
  with assms show ?thesis by (auto simp: pool_Remove_eq)
next
  case (CCleanup t)
  with assms(1,2) show ?thesis by (auto simp: held_def pool_cleanup_def cleanup_loop_eq stale_def)
qed (use assms in \<open>auto simp: pool_Put_def\<close>)

lemma listed_run:
  "held p a \<Longrightarrow> a \<in> set (pl_connections p) \<Longrightarrow> \<forall>t. CPut t a \<notin> set cs \<Longrightarrow>
     CRemove a \<notin> set cs \<Longrightarrow> CClose \<notin> set cs \<Longrightarrow> a \<in> set (pl_connections (fold pool_do cs p))"
proof (induction cs arbitrary: p)
  case (Cons c cs)
  from Cons.prems have "held (pool_do c p) a" by (intro held_do) auto
  moreover from Cons.prems have "a \<in> set (pl_connections (pool_do c p))" by (intro listed_do) auto
  ultimately show ?case using Cons by simp
qed simp

lemma pool_Get_held:
  assumes "pool_inv p" and "pool_Get env p = (Inr a, q)"
  shows "held q a \<and> a \<in> set (pl_connections q)"
  using assms
  by (cases rule: pool_Get_cases [of env p])
    (auto simp: held_def pool_inv_def set_conn_at conn_at_append)

section \<open>Properties\<close>

text \<open>
  C34. The pool implements a bounded set of resources: every run of its methods, in any order and
  with any clock readings and dial results, is step by step a run of \<open>apool_step\<close> with the same
  labels. So \<open>Get\<close> hands out an idle connection that is fit and nobody else's, or one that never
  existed before; it dials only when no idle one is fit and there is room; and it reports an
  exhausted pool only when no idle one is fit and the pool is full.
\<close>

theorem pool_refines_resources:
  assumes "NewConnectionPool url config = Return p0" and "trace pool_lstep p0 ls p"
  shows "trace apool_step
    \<lparr>ap_config = config, ap_target = httpToWS url, ap_closed = False,
     ap_busy = Map.empty, ap_idle = Map.empty, ap_known = {}\<rparr> ls (pool_abs p)"
proof -
  have "pool_abs p0 = \<lparr>ap_config = config, ap_target = httpToWS url, ap_closed = False,
     ap_busy = Map.empty, ap_idle = Map.empty, ap_known = {}\<rparr>"
    using assms(1) by (auto simp: NewConnectionPool_def pool_abs_def split: if_splits)
  with pool.trace_sim [OF assms(2) pool_inv_new [OF assms(1)]] show ?thesis by simp
qed

definition sample_pool :: ConnectionPool where
  "sample_pool = \<lparr>pl_url = ''http://a'', pl_config = DefaultPoolConfig\<lparr>pcf_MaxConnections := 2\<rparr>,
     pl_heap = [], pl_connections = [], pl_closed = False\<rparr>"

definition sample_get :: "time \<Rightarrow> get_env" where
  "sample_get t = \<lparr>pv_clock = (\<lambda>_. (t, t)), pv_now = t,
     pv_dial = (\<lambda>url. if url = ''ws://a'' then None else Some (ErrNew ''refused''))\<rparr>"

lemma sample_pool_new:
  "NewConnectionPool ''http://a'' (DefaultPoolConfig\<lparr>pcf_MaxConnections := 2\<rparr>) = Return sample_pool"
  by (simp add: NewConnectionPool_def sample_pool_def)

lemma sample_Get: "fst (pool_Get (sample_get 0) sample_pool) = Inr 0"
  by (simp add: pool_Get_def sample_pool_def sample_get_def createConnection_def httpToWS_def)

lemma sample_step: "pool_step sample_pool (snd (pool_Get (sample_get 0) sample_pool))"
  using pool_step.intros [of "CGet (sample_get 0)" sample_pool] by simp

text \<open>Two connections are dialled, a third call finds the pool full, one is put back and reused.\<close>

definition sample_busy :: "nat \<Rightarrow> ConnectionPool" where
  "sample_busy n = sample_pool
     \<lparr>pl_heap := replicate n \<lparr>pn_open = True, pn_URL = ''http://a'', pn_CreatedAt = 0,
        pn_LastUsedAt = 0, pn_InUse = True\<rparr>, pl_connections := [0..<n]\<rparr>"

lemma sample_gets:
  "pool_Get (sample_get 0) sample_pool = (Inr 0, sample_busy 1)"
  "pool_Get (sample_get 0) (sample_busy 1) = (Inr 1, sample_busy 2)"
  "pool_Get (sample_get 0) (sample_busy 2) = (Inl ErrPoolExhausted, sample_busy 2)"
  "pool_Get (sample_get 0) (pool_Put 0 1 (sample_busy 2)) = (Inr 1, sample_busy 2)"
  by (simp_all add: pool_Get_def sample_busy_def sample_pool_def sample_get_def createConnection_def
      httpToWS_def conn_at_def DefaultPoolConfig_def pool_Put_def set_conn_def isHealthy_def
      numeral_2_eq_2 time_sub_def)

lemma sample_lstep:
  "pool_Get (sample_get t) p = (r, q) \<Longrightarrow> pool_lstep p (Got t t (pv_dial (sample_get 0)) r) q"
  using pool_get [of t t "sample_get t" p r q] by (simp add: reads_within_def sample_get_def)

theorem pool_refines_resources_witness:
  "trace apool_step
     \<lparr>ap_config = DefaultPoolConfig\<lparr>pcf_MaxConnections := 2\<rparr>, ap_target = ''ws://a'', ap_closed = False,
      ap_busy = Map.empty, ap_idle = Map.empty, ap_known = {}\<rparr>
     (map (Got 0 0 (pv_dial (sample_get 0))) [Inr 0, Inr 1, Inl ErrPoolExhausted] @
       [Released 0 1, Got 0 0 (pv_dial (sample_get 0)) (Inr 1)])
     (pool_abs (sample_busy 2))"
proof -
  have "pool_lstep (sample_busy 2) (Released 0 1) (pool_Put 0 1 (sample_busy 2))"
    by (rule pool_put) (simp add: sample_busy_def)
  then have "trace pool_lstep sample_pool
     (map (Got 0 0 (pv_dial (sample_get 0))) [Inr 0, Inr 1, Inl ErrPoolExhausted] @
       [Released 0 1, Got 0 0 (pv_dial (sample_get 0)) (Inr 1)]) (sample_busy 2)"
    using sample_gets [THEN sample_lstep] by (simp only: list.map append.simps) (meson trace_Cons trace_Nil)
  from pool_refines_resources [OF sample_pool_new this] show ?thesis
    by (simp add: httpToWS_def)
qed

text \<open>
  C35. No run leaks a socket: a connection the pool ever dialled is open exactly as long as the pool
  lists it, there are never more of them than \<open>MaxConnections\<close>, and a closed pool has none.
\<close>

theorem pool_leaks_nothing:
  assumes "NewConnectionPool url config = Return p0" and "pool_step\<^sup>*\<^sup>* p0 p"
  shows "int (length (pl_connections p)) \<le> pcf_MaxConnections (pl_config p) \<and>
    (\<forall>a < length (pl_heap p). pn_open (conn_at p a) \<longleftrightarrow> a \<in> set (pl_connections p)) \<and>
    (pl_closed p \<longrightarrow> (\<forall>a < length (pl_heap p). \<not> pn_open (conn_at p a)))"
  using pool_safe.run_inv [OF assms(2) pool_inv_new [OF assms(1)]] by (auto simp: pool_inv_def)

theorem pool_leaks_nothing_witness:
  "pn_open (conn_at (snd (pool_Get (sample_get 0) sample_pool)) 0)"
proof -
  let ?q = "snd (pool_Get (sample_get 0) sample_pool)"
  have "length (pl_heap ?q) = 1" "pl_connections ?q = [0]"
    by (simp_all add: pool_Get_def sample_pool_def sample_get_def createConnection_def httpToWS_def
        DefaultPoolConfig_def)
  with pool_leaks_nothing [OF sample_pool_new r_into_rtranclp [where r = pool_step, OF sample_step]]
  show ?thesis by simp
qed

text \<open>
  C36. A connection that was handed out is nobody else's: until it is put back no \<open>Get\<close> returns it,
  whatever else is called meanwhile; and unless it is removed or the pool closed it stays
  open, clean-up rounds included.
\<close>

theorem pool_exclusive:
  assumes "pool_inv p" and "pool_Get env p = (Inr a, q)" and "\<forall>t. CPut t a \<notin> set cs"
  shows "fst (pool_Get env' (fold pool_do cs q)) \<noteq> Inr a \<and>
    (CRemove a \<notin> set cs \<and> CClose \<notin> set cs \<longrightarrow> pn_open (conn_at (fold pool_do cs q) a))"
proof -
  let ?r = "fold pool_do cs q"
  from pool_Get_held [OF assms(1,2)] have h: "held q a" and l: "a \<in> set (pl_connections q)" by auto
  from h assms(3) have r: "held ?r a" by (rule held_run)
  have "pool_inv q" using pool_inv_Get [OF assms(1), of env] assms(2) by simp
  then have inv: "pool_inv ?r" by (rule pool_inv_run)
  have "fst (pool_Get env' ?r) \<noteq> Inr a"
    using r by (cases rule: pool_Get_cases [of env' ?r]) (auto simp: held_def)
  moreover have "pn_open (conn_at ?r a)" if "CRemove a \<notin> set cs" "CClose \<notin> set cs"
    using listed_run [OF h l assms(3) that] inv r by (auto simp: pool_inv_def held_def)
  ultimately show ?thesis by blast
qed

theorem pool_exclusive_witness:
  "fst (pool_Get (sample_get 5) (pool_cleanup 1000000000000 (snd (pool_Get (sample_get 0) sample_pool)))) \<noteq> Inr 0"
proof -
  have "pool_Get (sample_get 0) sample_pool = (Inr 0, snd (pool_Get (sample_get 0) sample_pool))"
    using sample_Get by (simp add: prod_eq_iff)
  from pool_exclusive [OF pool_inv_new [OF sample_pool_new] this, of "[CCleanup 1000000000000]"]
  show ?thesis by simp
qed

text \<open>
  C37. \<open>cleanup\<close> looks at the idle time alone, \<open>Get\<close> at the age too, and \<open>Get\<close> drops nothing: when
  the connections of a full pool have outlived \<open>MaxLifetime\<close> while idle, every call fails as
  exhausted although all are free, and no clean-up round changes that before they have been
  idle for \<open>IdleTimeout\<close>.
\<close>

fun in_window :: "ConnectionPool \<Rightarrow> pool_call \<Rightarrow> bool" where
  "in_window p (CGet env) =
     (\<forall>a\<in>set (pl_connections p). \<forall>i. pcf_MaxLifetime (pl_config p) < time_sub (snd (pv_clock env i)) (pn_CreatedAt (conn_at p a)))"
| "in_window p (CCleanup now) =
     (\<forall>a\<in>set (pl_connections p). time_sub now (pn_LastUsedAt (conn_at p a)) \<le> pcf_IdleTimeout (pl_config p))"
| "in_window p c = False"

lemma expired_Get:
  assumes "\<not> pl_closed p" and "pcf_MaxConnections (pl_config p) \<le> int (length (pl_connections p))"
    and "0 < pcf_MaxLifetime (pl_config p)" and "in_window p (CGet env)"
  shows "pool_Get env p = (Inl ErrPoolExhausted, p)"
proof -
  have "find_idle env p 0 (pl_connections p) = None"
    using assms(3,4) by (auto simp: find_idle_None isHealthy_def)
  with assms(1,2) show ?thesis by (simp add: pool_Get_def)
qed

theorem expired_pool_exhausted:
  assumes "\<not> pl_closed p" and "pcf_MaxConnections (pl_config p) \<le> int (length (pl_connections p))"
    and "0 < pcf_MaxLifetime (pl_config p)" and "\<forall>a\<in>set (pl_connections p). \<not> pn_InUse (conn_at p a)"
    and "\<forall>c\<in>set cs. in_window p c" and "in_window p (CGet env)"
  shows "fold pool_do cs p = p \<and> fst (pool_Get env (fold pool_do cs p)) = Inl ErrPoolExhausted \<and>
    pst_Active (pool_Stats (fold pool_do cs p)) = 0"
proof -
  have "pool_do c p = p" if "in_window p c" for c
  proof (cases c)
    case (CGet env)
    with that expired_Get [OF assms(1-3)] show ?thesis by simp
  next
    case (CCleanup now)
    with that have "filter (stale now p) (pl_connections p) = []"
      by (auto simp: filter_empty_conv stale_def)
    moreover from this have "filter (\<lambda>a. \<not> stale now p a) (pl_connections p) = pl_connections p"
      by (simp add: filter_empty_conv filter_id_conv)
    ultimately show ?thesis using assms(1) CCleanup by (simp add: pool_cleanup_eq)
  qed (use that in auto)
  with assms(5) have f: "fold pool_do cs p = p" by (induction cs) simp_all
  have "pst_Active (stats_loop p as st) = pst_Active st" if "\<forall>a\<in>set as. \<not> pn_InUse (conn_at p a)" for as st
    using that by (induction p as st rule: stats_loop.induct) simp_all
  with assms(4) have "pst_Active (pool_Stats p) = 0" by (simp add: pool_Stats_def)
  with f expired_Get [OF assms(1-3,6)] show ?thesis by simp
qed

definition sample_full :: ConnectionPool where
  "sample_full = sample_pool
     \<lparr>pl_heap := replicate 2 \<lparr>pn_open = True, pn_URL = ''http://a'', pn_CreatedAt = 0,
        pn_LastUsedAt = 1800 * second, pn_InUse = False\<rparr>, pl_connections := [0, 1]\<rparr>"

theorem expired_pool_exhausted_witness:
  "fst (pool_Get (sample_get (2000 * second)) (pool_cleanup (1830 * second) sample_full)) = Inl ErrPoolExhausted"
proof -
  note defs = sample_full_def sample_pool_def DefaultPoolConfig_def sample_get_def time_sub_def conn_at_def
  have "\<not> pl_closed sample_full"
    and "pcf_MaxConnections (pl_config sample_full) \<le> int (length (pl_connections sample_full))"
    and "0 < pcf_MaxLifetime (pl_config sample_full)"
    and "\<forall>a\<in>set (pl_connections sample_full). \<not> pn_InUse (conn_at sample_full a)"
    and "\<forall>c\<in>set [CCleanup (1830 * second)]. in_window sample_full c"
    and "in_window sample_full (CGet (sample_get (2000 * second)))"
    by (simp_all add: defs)
  from expired_pool_exhausted [OF this] show ?thesis by auto
qed

text \<open>
  \<open>GetWithWait\<close> returns as soon as its timer or its context fires, and it reports an exhausted
  pool only when the wait time (10 s if none is configured) is over and every poll so far
  found the pool exhausted.
\<close>

lemma wait_loop_total: "(\<exists>(t, w, e)\<in>set es. \<forall>env. e \<noteq> WaitTick env) \<Longrightarrow> wait_loop es p \<noteq> None"
  by (induction es p rule: wait_loop.induct) (auto simp: Let_def split: prod.split)

lemma wait_loop_exhausted:
  assumes "wait_loop es p = Some (Inl ErrPoolExhausted, q)"
    and "\<forall>(t, w, e)\<in>set es. e \<noteq> WaitCtx ErrPoolExhausted"
  shows "\<exists>pre t w post. es = pre @ (t, w, WaitTimeout) # post \<and> (\<forall>(t, w, e)\<in>set pre. \<exists>env. e = WaitTick env)"
  using assms
proof (induction es p rule: wait_loop.induct)
  case (3 t w es p)
  then show ?case by (intro exI [of _ "[]"]) auto
next
  case (4 t w env es p)
  obtain r p' where g: "pool_Get env (w p) = (r, p')" by fastforce
  from "4.prems"(1) g have "r = Inl ErrPoolExhausted" and "wait_loop es p' = Some (Inl ErrPoolExhausted, q)"
    by (auto split: if_splits)
  with "4.IH" [of "(r, p')" r p'] g "4.prems"(2) obtain pre t' w' post
    where "es = pre @ (t', w', WaitTimeout) # post" "\<forall>(t, w, e)\<in>set pre. \<exists>env. e = WaitTick env"
    by auto
  then show ?case by (intro exI [of _ "(t, w, WaitTick env) # pre"]) auto
qed auto

lemma wait_bounded:
  assumes "timer_law start (wait_timeout (pl_config p)) es"
    and "\<forall>(t, w, e)\<in>set es. e \<noteq> WaitCtx ErrPoolExhausted"
  shows "((\<exists>(t, w, e)\<in>set es. \<forall>env. e \<noteq> WaitTick env) \<longrightarrow> GetWithWait env es p \<noteq> None) \<and>
    (\<forall>q. GetWithWait env es p = Some (Inl ErrPoolExhausted, q) \<longrightarrow>
       (\<exists>pre t w post. es = pre @ (t, w, WaitTimeout) # post \<and> start + wait_timeout (pl_config p) \<le> t \<and>
          (\<forall>(t, w, e)\<in>set pre. \<exists>env. e = WaitTick env)))"
proof -
  have "GetWithWait env es p \<noteq> None" if "\<exists>(t, w, e)\<in>set es. \<forall>env. e \<noteq> WaitTick env"
    using wait_loop_total [OF that] by (simp add: GetWithWait_def split_def Let_def)
  moreover have "\<exists>pre t w post. es = pre @ (t, w, WaitTimeout) # post \<and> start + wait_timeout (pl_config p) \<le> t \<and>
      (\<forall>(t, w, e)\<in>set pre. \<exists>env. e = WaitTick env)"
    if g: "GetWithWait env es p = Some (Inl ErrPoolExhausted, q)" for q
  proof -
    from g have "wait_loop es (snd (pool_Get env p)) = Some (Inl ErrPoolExhausted, q)"
      by (auto simp: GetWithWait_def split_def Let_def split: if_splits)
    from wait_loop_exhausted [OF this assms(2)] obtain pre t w post
      where "es = pre @ (t, w, WaitTimeout) # post" "\<forall>(t, w, e)\<in>set pre. \<exists>env. e = WaitTick env" by blast
    with assms(1) show ?thesis by (fastforce simp: timer_law_def)
  qed
  ultimately show ?thesis by blast
qed

lemma wait_bounded_witness:
  "GetWithWait (sample_get (2000 * second))
     [(0, id, WaitTick (sample_get (2001 * second))), (2010 * second, id, WaitTimeout)] sample_full =
     Some (Inl ErrPoolExhausted, sample_full) \<and> wait_timeout (pl_config sample_full) = 10 * second"
proof -
  let ?es = "[(0, id, WaitTick (sample_get (2001 * second))), (2010 * second, id, WaitTimeout)]"
  note defs = sample_full_def sample_pool_def DefaultPoolConfig_def sample_get_def time_sub_def conn_at_def
  have w: "wait_timeout (pl_config sample_full) = 10 * second" by (simp add: defs wait_timeout_def)
  have "timer_law (2000 * second) (wait_timeout (pl_config sample_full)) ?es"
    by (simp add: timer_law_def w)
  from wait_bounded [OF this, of "sample_get (2000 * second)"]
  have "GetWithWait (sample_get (2000 * second)) ?es sample_full \<noteq> None" by simp
  moreover have "pool_Get (sample_get t) sample_full = (Inl ErrPoolExhausted, sample_full)"
    if "t \<in> {2000 * second, 2001 * second}" for t
    using that by (intro expired_Get) (auto simp: defs)
  ultimately show ?thesis using w by (simp add: GetWithWait_def)
qed

end
