(* ===== verification/Session.thy ===== *)
theory Session
  imports Pool Proxy
begin

text \<open>
  \<open>internal/websocket/handler.go\<close>: a client's WebSocket session. Two goroutines share the
  session: \<open>forwardFromClient\<close> (which \<open>Run\<close> calls, with its deferred \<open>Close\<close>) and
  \<open>forwardFromBackend\<close>. Neither takes a lock for \<open>backendConn\<close>, so each access to a shared field
  is a step of its own: a goroutine is a program counter and a step function, and a run is a
  schedule, the list of whose turn it is together with what the environment gives that step
  (clock, messages, results of dialling and writing).

  Sockets to backends are numbered in the order they are dialled; \<open>ss_conns\<close> says which are
  open. Calling a method of the WebSocket library on a nil connection dereferences it and
  panics. A panic of the client's goroutine is recovered by \<open>net/http\<close> after the deferred
  \<open>Close\<close>; nothing recovers the other one, so its panic ends the process (\<open>ss_crashed\<close>).
\<close>

section \<open>Configuration and state\<close>

record WsConfig =
  wc_Enabled :: bool
  wc_PingInterval :: duration
  wc_PongTimeout :: duration
  wc_WriteTimeout :: duration
  wc_MaxMessageSize :: int
  wc_ReconnectBackoff :: duration
  wc_MaxReconnects :: int

definition DefaultConfig :: WsConfig where
  "DefaultConfig =
     \<lparr>wc_Enabled = True, wc_PingInterval = 30 * second, wc_PongTimeout = 10 * second,
      wc_WriteTimeout = 10 * second, wc_MaxMessageSize = 512 * 1024,
      wc_ReconnectBackoff = 1 * second, wc_MaxReconnects = 5\<rparr>"

record ws_request =
  wq_JSONRPC :: string
  wq_Method :: string
  wq_Params :: bytes
  wq_ID :: json

text \<open>
  What is handed to the writer of the client's socket, whether or not that write then succeeds: a
  message of a backend, or \<open>rpcResponse\<close> with an error.
\<close>

datatype ws_out = Relay bytes | Reply json

definition ws_error :: "json \<Rightarrow> int \<Rightarrow> string \<Rightarrow> json" where
  "ws_error i code message = JObject
     [(''jsonrpc'', JString ''2.0''),
      (''error'', JObject [(''code'', json_int code), (''message'', JString message)]),
      (''id'', i)]"

text \<open>
  Where a goroutine is. While a request is handled the counter carries its message and id.
\<close>

datatype client_pc =
    CStart | CLoop | CRead
  | CCheck bytes json | CDial bytes json | CDeadline bytes json | CWrite bytes json
  | CDrop bytes json | CNil bytes json | CRedial bytes json | CRewrite bytes json
  | CClose | CCloseCheck | CCloseBackend | CDone

datatype backend_pc =
    BLoop | BCheck | BRead | BReading nat | BRelay bytes | BClose | BNil | BRetry nat | BAfter | BDone

record ClientSession =
  ss_chainName :: string
  ss_config :: WsConfig
  ss_backendConn :: "nat option"
  ss_conns :: "bool list"
  ss_done :: bool
  ss_clientClosed :: bool
  ss_readDeadline :: time
  ss_client :: client_pc
  ss_backend :: backend_pc
  ss_panicked :: bool
  ss_crashed :: bool
  ss_received :: "(time \<times> bytes \<times> json) list"
  ss_sent :: "(nat \<times> bytes) list"
  ss_out :: "ws_out list"
  ss_sleeps :: "duration list"
  ss_metrics :: metrics

text \<open>
  The environment of a step. A read from the client lasts a while: the pong handler may run
  before it returns (\<open>rr_pongs\<close>, the times), and it returns a message type and a message, or an
  error, at \<open>rr_time\<close>.
\<close>

record client_read =
  rr_pongs :: "time list"
  rr_time :: time
  rr_result :: "go_error + int \<times> bytes"

record ws_in =
  wi_now :: time
  wi_read :: client_read
  wi_stats :: "EndpointStats list"
  wi_dial :: "string \<Rightarrow> go_error option"
  wi_write :: "go_error option"
  wi_message :: "go_error + int \<times> bytes"

definition TextMessage :: int where
  "TextMessage = 1"

section \<open>Shared operations\<close>

text \<open>The first healthy endpoint, in the order of the chain, that accepts the connection.\<close>

fun connect_loop :: "(string \<Rightarrow> go_error option) \<Rightarrow> EndpointStats list \<Rightarrow> string option" where
  "connect_loop dial [] = None"
| "connect_loop dial (ep # eps) =
     (if \<not> es_Healthy ep then connect_loop dial eps
      else case dial (httpToWS (es_URL ep)) of
             Some err \<Rightarrow> connect_loop dial eps
           | None \<Rightarrow> Some (httpToWS (es_URL ep)))"

definition connectToBackend :: "ws_in \<Rightarrow> ClientSession \<Rightarrow> go_error option \<times> ClientSession" where
  "connectToBackend i s =
     (case connect_loop (wi_dial i) (wi_stats i) of
        None \<Rightarrow> (Some (ErrNew ''no healthy WebSocket endpoints available''), s)
      | Some wsURL \<Rightarrow>
          (None, s\<lparr>ss_conns := ss_conns s @ [True], ss_backendConn := Some (length (ss_conns s))\<rparr>))"

definition close_socket :: "nat \<Rightarrow> ClientSession \<Rightarrow> ClientSession" where
  "close_socket c s = s\<lparr>ss_conns := (ss_conns s)[c := False]\<rparr>"

text \<open>
  The mutex makes a write to the client one step. The code ignores its error, so the reply counts
  as given to the writer in either case.
\<close>

definition sendError :: "json \<Rightarrow> int \<Rightarrow> string \<Rightarrow> ClientSession \<Rightarrow> ClientSession" where
  "sendError i code message s = s\<lparr>ss_out := ss_out s @ [Reply (ws_error i code message)]\<rparr>"

definition client_panic :: "ClientSession \<Rightarrow> ClientSession" where
  "client_panic s = s\<lparr>ss_panicked := True, ss_client := CClose\<rparr>"

section \<open>forwardFromClient and Close\<close>

text \<open>
  \<open>CStart\<close> arms the read deadline; the read limit it also sets is kept by the library, where a
  message that exceeds it is a read error.
\<close>

text \<open>The deadline after the pong handlers of a read: each sets it anew.\<close>

definition pong_deadline :: "duration \<Rightarrow> time list \<Rightarrow> time \<Rightarrow> time" where
  "pong_deadline timeout pongs d = fold (\<lambda>t _. t + timeout) pongs d"

definition client_message ::
  "(bytes \<Rightarrow> go_error + ws_request) \<Rightarrow> time \<Rightarrow> int \<times> bytes \<Rightarrow> ClientSession \<Rightarrow> ClientSession" where
  "client_message unmarshal now m s =
     (case m of (messageType, message) \<Rightarrow>
       if messageType \<noteq> TextMessage then s\<lparr>ss_client := CLoop\<rparr>
       else case unmarshal message of
              Inl err \<Rightarrow> (sendError JNull (- 32700) ''Parse error'' s)\<lparr>ss_client := CLoop\<rparr>
            | Inr req \<Rightarrow>
                s\<lparr>ss_metrics := RecordRequest (ss_chainName s) (wq_Method req) (ss_metrics s),
                  ss_received := ss_received s @ [(now, message, wq_ID req)],
                  ss_client := CCheck message (wq_ID req)\<rparr>)"

text \<open>\<open>connectToBackend\<close> with the answer to the client when it fails.\<close>

definition client_connect ::
  "ws_in \<Rightarrow> json \<Rightarrow> string \<Rightarrow> client_pc \<Rightarrow> ClientSession \<Rightarrow> ClientSession" where
  "client_connect i rid message pc s =
     (case connectToBackend i s of
        (Some err, s) \<Rightarrow> (sendError rid (- 32603) message s)\<lparr>ss_client := CLoop\<rparr>
      | (None, s) \<Rightarrow> s\<lparr>ss_client := pc\<rparr>)"

text \<open>\<open>Close\<close>\<close>

fun close_at :: "client_pc \<Rightarrow> ClientSession \<Rightarrow> ClientSession" where
  "close_at CClose s = s\<lparr>ss_done := True, ss_clientClosed := True, ss_client := CCloseCheck\<rparr>"
| "close_at CCloseCheck s =
     s\<lparr>ss_client := (if ss_backendConn s = None then CDone else CCloseBackend)\<rparr>"
| "close_at CCloseBackend s =
     (case ss_backendConn s of
        None \<Rightarrow> s\<lparr>ss_panicked := True, ss_client := CDone\<rparr>
      | Some c \<Rightarrow> (close_socket c s)\<lparr>ss_client := CDone\<rparr>)"
| "close_at pc s = s"

fun client_at ::
  "(bytes \<Rightarrow> go_error + ws_request) \<Rightarrow> ws_in \<Rightarrow> client_pc \<Rightarrow> ClientSession \<Rightarrow> ClientSession" where
  "client_at um i CStart s =
     s\<lparr>ss_readDeadline := wi_now i + wc_PongTimeout (ss_config s), ss_client := CLoop\<rparr>"
| "client_at um i CLoop s = s\<lparr>ss_client := (if ss_done s then CClose else CRead)\<rparr>"
| "client_at um i CRead s =
     (let s = s\<lparr>ss_readDeadline :=
            pong_deadline (wc_PongTimeout (ss_config s)) (rr_pongs (wi_read i)) (ss_readDeadline s)\<rparr>
      in case rr_result (wi_read i) of
           Inl err \<Rightarrow> s\<lparr>ss_client := CClose\<rparr>
         | Inr m \<Rightarrow> client_message um (rr_time (wi_read i)) m s)"
| "client_at um i (CCheck m rid) s =
     s\<lparr>ss_client := (if ss_backendConn s = None then CDial m rid else CDeadline m rid)\<rparr>"
| "client_at um i (CDial m rid) s = client_connect i rid ''Backend unavailable'' (CDeadline m rid) s"
| "client_at um i (CDeadline m rid) s =
     (case ss_backendConn s of None \<Rightarrow> client_panic s | Some c \<Rightarrow> s\<lparr>ss_client := CWrite m rid\<rparr>)"
| "client_at um i (CWrite m rid) s =
     (case ss_backendConn s of
        None \<Rightarrow> client_panic s
      | Some c \<Rightarrow>
          (case wi_write i of
             None \<Rightarrow> s\<lparr>ss_sent := ss_sent s @ [(c, m)], ss_client := CLoop\<rparr>
           | Some err \<Rightarrow> s\<lparr>ss_client := CDrop m rid\<rparr>))"
| "client_at um i (CDrop m rid) s =
     (case ss_backendConn s of
        None \<Rightarrow> client_panic s
      | Some c \<Rightarrow> (close_socket c s)\<lparr>ss_client := CNil m rid\<rparr>)"
| "client_at um i (CNil m rid) s = s\<lparr>ss_backendConn := None, ss_client := CRedial m rid\<rparr>"
| "client_at um i (CRedial m rid) s = client_connect i rid ''Backend connection lost'' (CRewrite m rid) s"
| "client_at um i (CRewrite m rid) s =
     (case ss_backendConn s of
        None \<Rightarrow> client_panic s
      | Some c \<Rightarrow>
          (case wi_write i of
             None \<Rightarrow> s\<lparr>ss_sent := ss_sent s @ [(c, m)], ss_client := CLoop\<rparr>
           | Some err \<Rightarrow>
               (sendError rid (- 32603) ''Failed to send to backend'' s)\<lparr>ss_client := CLoop\<rparr>))"
| "client_at um i CClose s = close_at CClose s"
| "client_at um i CCloseCheck s = close_at CCloseCheck s"
| "client_at um i CCloseBackend s = close_at CCloseBackend s"
| "client_at um i CDone s = s"

section \<open>forwardFromBackend\<close>

fun backend_at :: "ws_in \<Rightarrow> backend_pc \<Rightarrow> ClientSession \<Rightarrow> ClientSession" where
  "backend_at i BLoop s = s\<lparr>ss_backend := (if ss_done s then BDone else BCheck)\<rparr>"
| "backend_at i BCheck s =
     (if ss_backendConn s = None
      then s\<lparr>ss_sleeps := ss_sleeps s @ [100000000], ss_backend := BLoop\<rparr>
      else s\<lparr>ss_backend := BRead\<rparr>)"
| "backend_at i BRead s =
     (case ss_backendConn s of
        None \<Rightarrow> s\<lparr>ss_crashed := True\<rparr>
      | Some c \<Rightarrow> s\<lparr>ss_backend := BReading c\<rparr>)"
| "backend_at i (BReading c) s =
     (case wi_message i of
        Inl err \<Rightarrow> s\<lparr>ss_backend := BClose\<rparr>
      | Inr (messageType, message) \<Rightarrow>
          s\<lparr>ss_backend := (if messageType \<noteq> TextMessage then BLoop else BRelay message)\<rparr>)"
| "backend_at i (BRelay message) s =
     s\<lparr>ss_out := ss_out s @ [Relay message],
       ss_backend := (if wi_write i = None then BLoop else BDone)\<rparr>"
| "backend_at i BClose s =
     (case ss_backendConn s of
        None \<Rightarrow> s\<lparr>ss_crashed := True\<rparr>
      | Some c \<Rightarrow> (close_socket c s)\<lparr>ss_backend := BNil\<rparr>)"
| "backend_at i BNil s = s\<lparr>ss_backendConn := None, ss_backend := BRetry 0\<rparr>"
| "backend_at i (BRetry n) s =
     (if int n < wc_MaxReconnects (ss_config s) then
        let s = s\<lparr>ss_sleeps := ss_sleeps s @ [wrap64 (wc_ReconnectBackoff (ss_config s) * (int n + 1))]\<rparr>
        in case connectToBackend i s of
             (None, s) \<Rightarrow> s\<lparr>ss_backend := BAfter\<rparr>
           | (Some err, s) \<Rightarrow> s\<lparr>ss_backend := BRetry (Suc n)\<rparr>
      else s\<lparr>ss_backend := BAfter\<rparr>)"
| "backend_at i BAfter s = s\<lparr>ss_backend := (if ss_backendConn s = None then BDone else BLoop)\<rparr>"
| "backend_at i BDone s = s"

section \<open>Runs\<close>

datatype goroutine = Client | Backend

definition turn ::
  "(bytes \<Rightarrow> go_error + ws_request) \<Rightarrow> goroutine \<times> ws_in \<Rightarrow> ClientSession \<Rightarrow> ClientSession" where
  "turn um gi s =
     (if ss_crashed s then s
      else case gi of
             (Client, i) \<Rightarrow> client_at um i (ss_client s) s
           | (Backend, i) \<Rightarrow> backend_at i (ss_backend s) s)"

definition session_run ::
  "(bytes \<Rightarrow> go_error + ws_request) \<Rightarrow> (goroutine \<times> ws_in) list \<Rightarrow> ClientSession \<Rightarrow> ClientSession" where
  "session_run um sched s = fold (turn um) sched s"

definition new_session :: "string \<Rightarrow> WsConfig \<Rightarrow> metrics \<Rightarrow> ClientSession" where
  "new_session chainName config ms =
     \<lparr>ss_chainName = chainName, ss_config = config, ss_backendConn = None, ss_conns = [],
      ss_done = False, ss_clientClosed = False, ss_readDeadline = 0, ss_client = CDone,
      ss_backend = BDone, ss_panicked = False, ss_crashed = False, ss_received = [], ss_sent = [],
      ss_out = [], ss_sleeps = [], ss_metrics = ms\<rparr>"

text \<open>\<open>Run\<close> up to the point where both goroutines are under way.\<close>

definition session_Run :: "ws_in \<Rightarrow> ClientSession \<Rightarrow> ClientSession" where
  "session_Run i s =
     (case connectToBackend i s of
        (Some err, s) \<Rightarrow> (sendError JNull (- 32603) ''Failed to connect to backend'' s)\<lparr>ss_client := CClose\<rparr>
      | (None, s) \<Rightarrow> s\<lparr>ss_client := CStart, ss_backend := BLoop\<rparr>)"

datatype ws_result = ChainNotFound | UpgradeFailed | SessionRuns ClientSession

definition HandleWebSocket ::
  "'tls Manager \<Rightarrow> WsConfig \<Rightarrow> metrics \<Rightarrow> go_error option \<Rightarrow> ws_in \<Rightarrow> string \<Rightarrow> ws_result" where
  "HandleWebSocket manager config ms upgrade i chainName =
     (case GetChain manager chainName of
        None \<Rightarrow> ChainNotFound
      | Some ch \<Rightarrow>
          (case upgrade of
             Some err \<Rightarrow> UpgradeFailed
           | None \<Rightarrow> SessionRuns (session_Run (i\<lparr>wi_stats := cs_Endpoints (Chain_Stats ch)\<rparr>)
               (new_session chainName config ms))))"

text \<open>
  \<open>StartPinger\<close>: what its \<open>select\<close> receives, with the result of writing the ping. The result is
  the number of pings written and whether the loop has returned.
\<close>

datatype ping_event = PingCtx | PingDone | PingTick "go_error option"

fun ping_loop :: "ping_event list \<Rightarrow> nat \<Rightarrow> nat \<times> bool" where
  "ping_loop [] n = (n, False)"
| "ping_loop (PingCtx # es) n = (n, True)"
| "ping_loop (PingDone # es) n = (n, True)"
| "ping_loop (PingTick None # es) n = ping_loop es (Suc n)"
| "ping_loop (PingTick (Some err) # es) n = (n, True)"

definition StartPinger :: "WsConfig \<Rightarrow> ping_event list \<Rightarrow> (nat \<times> bool) outcome" where
  "StartPinger config es =
     (if wc_PingInterval config \<le> 0 then Panic ''non-positive interval for NewTicker''
      else Return (ping_loop es 0))"

section \<open>Single steps\<close>

lemma session_run_simps [simp]:
  "session_run um [] s = s"
  "session_run um (x # xs) s = session_run um xs (turn um x s)"
  "session_run um (xs @ ys) s = session_run um ys (session_run um xs s)"
  by (simp_all add: session_run_def)

lemma turn_simps [simp]:
  "\<not> ss_crashed s \<Longrightarrow> turn um (Client, i) s = client_at um i (ss_client s) s"
  "\<not> ss_crashed s \<Longrightarrow> turn um (Backend, i) s = backend_at i (ss_backend s) s"
  "ss_crashed s \<Longrightarrow> turn um gi s = s"
  by (simp_all add: turn_def)

lemma connectToBackend_simps [simp]:
  "connect_loop (wi_dial i) (wi_stats i) = Some url \<Longrightarrow> connectToBackend i s =
     (None, s\<lparr>ss_conns := ss_conns s @ [True], ss_backendConn := Some (length (ss_conns s))\<rparr>)"
  "connect_loop (wi_dial i) (wi_stats i) = None \<Longrightarrow> connectToBackend i s =
     (Some (ErrNew ''no healthy WebSocket endpoints available''), s)"
  by (simp_all add: connectToBackend_def)

lemma connect_loop_Some:
  "connect_loop dial eps = Some url \<Longrightarrow>
     \<exists>pre ep post. eps = pre @ ep # post \<and> es_Healthy ep \<and> url = httpToWS (es_URL ep) \<and> dial url = None \<and>
        (\<forall>e\<in>set pre. es_Healthy e \<longrightarrow> dial (httpToWS (es_URL e)) \<noteq> None)"
proof (induction eps)
  case (Cons e eps)
  show ?case
  proof (cases "es_Healthy e \<and> dial (httpToWS (es_URL e)) = None")
    case True
    with Cons.prems show ?thesis by (intro exI [of _ "[]"]) simp
  next
    case False
    then have "connect_loop dial (e # eps) = connect_loop dial eps" by (auto split: option.split)
    with Cons obtain pre ep post where "eps = pre @ ep # post" "es_Healthy ep"
      "url = httpToWS (es_URL ep)" "dial url = None"
      "\<forall>e\<in>set pre. es_Healthy e \<longrightarrow> dial (httpToWS (es_URL e)) \<noteq> None" by auto
    with False show ?thesis by (intro exI [of _ "e # pre"] exI [of _ ep] exI [of _ post]) auto
  qed
qed simp

lemma connect_loop_None:
  "connect_loop dial eps = None \<longleftrightarrow>
     (\<forall>e\<in>set eps. es_Healthy e \<longrightarrow> dial (httpToWS (es_URL e)) \<noteq> None)"
  by (induction eps) (auto split: option.split)

text \<open>Both goroutines have returned: nothing changes any more.\<close>

lemma session_over:
  "ss_client s = CDone \<Longrightarrow> ss_backend s = BDone \<Longrightarrow> session_run um sched s = s"
proof (induction sched)
  case (Cons x sched)
  obtain g i where "x = (g, i)" by (cases x)
  with Cons show ?case by (cases "ss_crashed s"; cases g) simp_all
qed simp

text \<open>
  A session of a known chain starts with a connection to the first healthy endpoint that accepts
  one, whatever the weights; without one the client is told so and the session ends.
\<close>

lemma HandleWebSocket_connects:
  assumes "GetChain m name = Some ch"
  shows "\<exists>s. HandleWebSocket m config ms None i name = SessionRuns s \<and>
    (case connect_loop (wi_dial i) (map ep_Stats (endpoints ch)) of
       None \<Rightarrow> ss_backendConn s = None \<and> ss_client s = CClose \<and>
         ss_out s = [Reply (ws_error JNull (- 32603) ''Failed to connect to backend'')]
     | Some url \<Rightarrow> ss_backendConn s = Some 0 \<and> ss_conns s = [True] \<and> ss_out s = [])"
  using assms
  by (auto simp: HandleWebSocket_def session_Run_def connectToBackend_def new_session_def sendError_def
      Chain_Stats_def split: option.split)

section \<open>What becomes of a request\<close>

text \<open>The request a goroutine is busy with.\<close>

fun pending :: "client_pc \<Rightarrow> (bytes \<times> json) list" where
  "pending (CCheck m r) = [(m, r)]"
| "pending (CDial m r) = [(m, r)]"
| "pending (CDeadline m r) = [(m, r)]"
| "pending (CWrite m r) = [(m, r)]"
| "pending (CDrop m r) = [(m, r)]"
| "pending (CNil m r) = [(m, r)]"
| "pending (CRedial m r) = [(m, r)]"
| "pending (CRewrite m r) = [(m, r)]"
| "pending pc = []"

fun leaving :: "client_pc \<Rightarrow> bool" where
  "leaving CClose = True"
| "leaving CCloseCheck = True"
| "leaving CCloseBackend = True"
| "leaving CDone = True"
| "leaving pc = False"

text \<open>The error replies other than the parse error.\<close>

fun refusals :: "ws_out list \<Rightarrow> json list" where
  "refusals [] = []"
| "refusals (Relay m # out) = refusals out"
| "refusals (Reply j # out) =
     (if j = ws_error JNull (- 32700) ''Parse error'' then refusals out else j # refusals out)"

lemma refusals_append [simp]: "refusals (out @ out') = refusals out @ refusals out'"
  by (induction out rule: refusals.induct) simp_all

lemma ws_error_code [simp]: "ws_error r (- 32603) m \<noteq> ws_error r' (- 32700) m'"
  by (simp add: ws_error_def json_int_def)

text \<open>
  \<open>answered rs sent replies\<close>: each request of \<open>rs\<close>, in order, was either written to a backend or
  answered with one error that carries its id.
\<close>

inductive answered :: "(bytes \<times> json) list \<Rightarrow> bytes list \<Rightarrow> json list \<Rightarrow> bool" where
  none: "answered [] [] []"
| forwarded: "answered rs sn rp \<Longrightarrow> answered (rs @ [(m, r)]) (sn @ [m]) rp"
| refused: "answered rs sn rp \<Longrightarrow>
     message \<in> {''Backend unavailable'', ''Backend connection lost'', ''Failed to send to backend''} \<Longrightarrow>
     answered (rs @ [(m, r)]) sn (rp @ [ws_error r (- 32603) message])"

definition accounts ::
  "(time \<times> bytes \<times> json) list \<Rightarrow> (nat \<times> bytes) list \<Rightarrow> ws_out list \<Rightarrow> client_pc \<Rightarrow> bool \<Rightarrow> bool" where
  "accounts received sent out pc panicked \<longleftrightarrow>
     (\<exists>rs lost. map snd received = rs @ lost \<and> answered rs (map snd sent) (refusals out) \<and>
        (lost = pending pc \<or> panicked \<and> leaving pc \<and> length lost \<le> 1))"

lemma accounts_start [simp]: "pending pc = [] \<Longrightarrow> refusals out = [] \<Longrightarrow> accounts [] [] out pc p"
  by (auto simp: accounts_def intro: answered.none)

lemma accounts_out [simp]:
  "accounts rc sn (out @ [Relay m]) pc p = accounts rc sn out pc p"
  "accounts rc sn (out @ [Reply (ws_error JNull (- 32700) ''Parse error'')]) pc p = accounts rc sn out pc p"
  by (simp_all add: accounts_def)

lemma accounts_forwarded:
  "accounts rc sn out pc p \<Longrightarrow> pending pc = [(m, r)] \<Longrightarrow> accounts rc (sn @ [(c, m)]) out CLoop p"
  by (cases pc) (auto simp: accounts_def intro: answered.forwarded)

lemma accounts_refused:
  "accounts rc sn out pc p \<Longrightarrow> pending pc = [(m, r)] \<Longrightarrow>
     message \<in> {''Backend unavailable'', ''Backend connection lost'', ''Failed to send to backend''} \<Longrightarrow>
     accounts rc sn (out @ [Reply (ws_error r (- 32603) message)]) CLoop p"
  by (cases pc) (auto simp: accounts_def intro: answered.refused)

lemma accounts_move:
  "accounts rc sn out pc p \<Longrightarrow> pending pc' = pending pc \<Longrightarrow> leaving pc \<longrightarrow> leaving pc' \<Longrightarrow>
     accounts rc sn out pc' p"
  by (auto simp: accounts_def)

lemma accounts_panic:
  assumes "accounts rc sn out pc p" and "length (pending pc) \<le> 1" and "leaving pc'"
  shows "accounts rc sn out pc' True"
proof -
  from assms(1) obtain rs lost where "map snd rc = rs @ lost" "answered rs (map snd sn) (refusals out)"
    and "lost = pending pc \<or> p \<and> leaving pc \<and> length lost \<le> 1" by (auto simp: accounts_def)
  with assms(2,3) show ?thesis unfolding accounts_def by (intro exI [of _ rs] exI [of _ lost]) auto
qed

lemma accounts_received:
  "accounts rc sn out CRead p \<Longrightarrow> accounts (rc @ [(t, m, r)]) sn out (CCheck m r) p"
  by (auto simp: accounts_def)

definition accounted :: "ClientSession \<Rightarrow> bool" where
  "accounted s \<longleftrightarrow> accounts (ss_received s) (ss_sent s) (ss_out s) (ss_client s) (ss_panicked s)"

lemma connectToBackend_frame:
  "snd (connectToBackend i s) =
     s\<lparr>ss_conns := ss_conns (snd (connectToBackend i s)), ss_backendConn := ss_backendConn (snd (connectToBackend i s))\<rparr>"
  by (simp add: connectToBackend_def split: option.split)

lemma accounted_connect:
  assumes "accounted s" and "pending (ss_client s) = [(m, r)]" and "pending pc = [(m, r)]"
    and "message \<in> {''Backend unavailable'', ''Backend connection lost'', ''Failed to send to backend''}"
  shows "accounted (client_connect i r message pc s)"
proof (cases "connect_loop (wi_dial i) (wi_stats i)")
  case None
  then show ?thesis
    using accounts_refused [of "ss_received s" "ss_sent s" "ss_out s" "ss_client s" "ss_panicked s" m r message] assms
    by (simp add: client_connect_def sendError_def accounted_def)
next
  case (Some url)
  have "\<not> leaving (ss_client s)" using assms(2) by (cases "ss_client s") simp_all
  with Some assms accounts_move [of "ss_received s" "ss_sent s" "ss_out s" "ss_client s" "ss_panicked s" pc]
  show ?thesis by (simp add: client_connect_def accounted_def)
qed

lemma accounted_client:
  assumes "accounted s"
  shows "accounted (client_at um i (ss_client s) s)"
proof (cases "ss_client s")
  case CRead
  show ?thesis
    using assms accounts_received [of "ss_received s" "ss_sent s" "ss_out s" "ss_panicked s"]
      accounts_move [of "ss_received s" "ss_sent s" "ss_out s" CRead "ss_panicked s" CLoop]
      accounts_move [of "ss_received s" "ss_sent s" "ss_out s" CRead "ss_panicked s" CClose]
    by (auto simp: CRead accounted_def client_message_def sendError_def Let_def split: sum.split prod.split)
next
  case (CDial m r)
  then show ?thesis using accounted_connect [OF assms, of m r] by simp
next
  case (CRedial m r)
  then show ?thesis using accounted_connect [OF assms, of m r] by simp
next
  case (CWrite m r)
  then show ?thesis
    using assms accounts_forwarded [of "ss_received s" "ss_sent s" "ss_out s" "CWrite m r" "ss_panicked s" m r]
      accounts_move [of "ss_received s" "ss_sent s" "ss_out s" "CWrite m r" "ss_panicked s" "CDrop m r"]
      accounts_panic [of "ss_received s" "ss_sent s" "ss_out s" "CWrite m r" "ss_panicked s" CClose]
    by (simp add: accounted_def client_panic_def split: option.split)
next
  case (CRewrite m r)
  then show ?thesis
    using assms accounts_forwarded [of "ss_received s" "ss_sent s" "ss_out s" "CRewrite m r" "ss_panicked s" m r]
      accounts_refused [of "ss_received s" "ss_sent s" "ss_out s" "CRewrite m r" "ss_panicked s" m r]
      accounts_panic [of "ss_received s" "ss_sent s" "ss_out s" "CRewrite m r" "ss_panicked s" CClose]
    by (simp add: accounted_def client_panic_def sendError_def split: option.split)
qed (use assms in \<open>auto simp: accounted_def client_panic_def close_socket_def
       elim: accounts_move accounts_panic split: option.split\<close>)

lemma accounted_backend: "accounted s \<Longrightarrow> accounted (backend_at i pc s)"
  by (cases pc) (auto simp: accounted_def close_socket_def connectToBackend_def Let_def
      split: option.split sum.split prod.split)

lemma accounted_run: "accounted s \<Longrightarrow> accounted (session_run um sched s)"
proof (induction sched arbitrary: s)
  case (Cons x sched)
  obtain g i where "x = (g, i)" by (cases x)
  with Cons show ?case
    by (cases "ss_crashed s"; cases g) (simp_all add: accounted_client accounted_backend)
qed simp

section \<open>When the process survives\<close>

text \<open>
  Without a failed write to a backend only the backend's goroutine clears \<open>backendConn\<close>, so it
  finds the connection it expects.
\<close>

definition calm :: "goroutine \<times> ws_in \<Rightarrow> bool" where
  "calm gi \<longleftrightarrow> (case gi of (Client, i) \<Rightarrow> wi_write i = None | (Backend, i) \<Rightarrow> True)"

fun dropping :: "client_pc \<Rightarrow> bool" where
  "dropping (CDrop m r) = True"
| "dropping (CNil m r) = True"
| "dropping (CRedial m r) = True"
| "dropping (CRewrite m r) = True"
| "dropping pc = False"

fun expects :: "backend_pc \<Rightarrow> bool" where
  "expects BRead = True"
| "expects (BReading c) = True"
| "expects BClose = True"
| "expects pc = False"

definition steady :: "ClientSession \<Rightarrow> bool" where
  "steady s \<longleftrightarrow> \<not> ss_crashed s \<and> \<not> dropping (ss_client s) \<and>
     (expects (ss_backend s) \<longrightarrow> ss_backendConn s \<noteq> None)"

lemma steady_client: "steady s \<Longrightarrow> wi_write i = None \<Longrightarrow> steady (client_at um i (ss_client s) s)"
  by (cases "ss_client s")
    (auto simp: steady_def client_message_def client_connect_def connectToBackend_def sendError_def
      client_panic_def close_socket_def Let_def split: option.split sum.split prod.split)

lemma steady_backend: "steady s \<Longrightarrow> steady (backend_at i (ss_backend s) s)"
  by (cases "ss_backend s")
    (auto simp: steady_def connectToBackend_def close_socket_def Let_def
      split: option.split sum.split prod.split)

lemma steady_run: "steady s \<Longrightarrow> \<forall>gi\<in>set sched. calm gi \<Longrightarrow> steady (session_run um sched s)"
proof (induction sched arbitrary: s)
  case (Cons x sched)
  obtain g i where x: "x = (g, i)" by (cases x)
  have "\<not> ss_crashed s" using Cons.prems(1) by (simp add: steady_def)
  with Cons x show ?case by (cases g) (simp_all add: calm_def steady_client steady_backend)
qed simp

section \<open>Read deadlines\<close>

text \<open>
  \<open>SetReadDeadline\<close>: the pong handler runs, and a message is returned, only until the deadline
  set last.
\<close>

fun pongs_ok :: "duration \<Rightarrow> time list \<Rightarrow> time \<Rightarrow> bool" where
  "pongs_ok timeout [] d = True"
| "pongs_ok timeout (t # ts) d = (t \<le> d \<and> pongs_ok timeout ts (t + timeout))"

definition read_ok :: "duration \<Rightarrow> client_read \<Rightarrow> time \<Rightarrow> bool" where
  "read_ok timeout r d \<longleftrightarrow> pongs_ok timeout (rr_pongs r) d \<and>
     (case rr_result r of Inl err \<Rightarrow> True | Inr m \<Rightarrow> rr_time r \<le> pong_deadline timeout (rr_pongs r) d)"

fun lawful :: "(bytes \<Rightarrow> go_error + ws_request) \<Rightarrow> (goroutine \<times> ws_in) list \<Rightarrow> ClientSession \<Rightarrow> bool" where
  "lawful um [] s = True"
| "lawful um ((g, i) # sched) s =
     ((g = Client \<and> ss_client s = CRead \<longrightarrow>
         read_ok (wc_PongTimeout (ss_config s)) (wi_read i) (ss_readDeadline s)) \<and>
      lawful um sched (turn um (g, i) s))"

definition armed :: "time \<Rightarrow> ClientSession \<Rightarrow> bool" where
  "armed d s \<longleftrightarrow> ss_client s \<noteq> CStart \<and> ss_readDeadline s = d \<and> (\<forall>(t, m, r)\<in>set (ss_received s). t \<le> d)"

lemma config_kept [simp]:
  "ss_config (client_at um i pc s) = ss_config s" "ss_config (backend_at i bpc s) = ss_config s"
  "ss_config (turn um gi s) = ss_config s"
proof -
  show c: "ss_config (client_at um i pc s) = ss_config s" for i
    by (cases pc) (simp_all add: client_message_def client_connect_def connectToBackend_def sendError_def
        client_panic_def close_socket_def Let_def split: option.split sum.split prod.split)
  show b: "ss_config (backend_at i bpc s) = ss_config s" for i bpc
    by (cases bpc) (simp_all add: connectToBackend_def close_socket_def Let_def
        split: option.split sum.split prod.split)
  show "ss_config (turn um gi s) = ss_config s"
    by (simp add: turn_def b split: prod.split goroutine.split)
      (cases "ss_client s"; simp add: client_message_def client_connect_def connectToBackend_def sendError_def
        client_panic_def close_socket_def Let_def split: option.split sum.split prod.split)
qed

lemma armed_client:
  assumes "armed d s" and "ss_client s = CRead \<longrightarrow> read_ok (wc_PongTimeout (ss_config s)) (wi_read i) d"
    and "\<forall>p\<in>set (rr_pongs (wi_read i)). d < p"
  shows "armed d (client_at um i (ss_client s) s)"
proof (cases "ss_client s")
  case CRead
  with assms(2) have ok: "read_ok (wc_PongTimeout (ss_config s)) (wi_read i) d" by simp
  with assms(3) have p: "rr_pongs (wi_read i) = []"
    by (cases "rr_pongs (wi_read i)") (auto simp: read_ok_def)
  with ok CRead assms(1) show ?thesis
    by (auto simp: armed_def read_ok_def pong_deadline_def client_message_def sendError_def Let_def
        split: sum.splits prod.split)
qed (use assms(1) in \<open>auto simp: armed_def client_connect_def connectToBackend_def sendError_def
       client_panic_def close_socket_def split: option.split\<close>)

lemma armed_backend: "armed d s \<Longrightarrow> armed d (backend_at i pc s)"
  by (cases pc) (auto simp: armed_def connectToBackend_def close_socket_def Let_def
      split: option.split sum.split prod.split)

lemma armed_run:
  assumes "armed d s" and "lawful um sched s" and "\<forall>(g, i)\<in>set sched. \<forall>p\<in>set (rr_pongs (wi_read i)). d < p"
  shows "armed d (session_run um sched s)"
  using assms
proof (induction sched arbitrary: s)
  case (Cons x sched)
  obtain g i where x: "x = (g, i)" by (cases x)
  have "armed d (turn um x s)"
  proof (cases "ss_crashed s \<or> g = Backend")
    case True
    with Cons.prems(1) x show ?thesis by (cases "ss_crashed s") (simp_all add: armed_backend)
  next
    case False
    then have g: "g = Client" "\<not> ss_crashed s" by (cases g; simp)+
    have "ss_readDeadline s = d" using Cons.prems(1) by (simp add: armed_def)
    with Cons.prems g x armed_client [of d s i um] show ?thesis by simp
  qed
  with Cons x show ?case by simp
qed simp

lemma lawful_append:
  "lawful um (xs @ ys) s \<longleftrightarrow> lawful um xs s \<and> lawful um ys (session_run um xs s)"
proof (induction xs arbitrary: s)
  case (Cons x xs)
  then show ?case by (cases x) simp
qed simp

lemma crashed_run: "ss_crashed s \<Longrightarrow> session_run um sched s = s"
  by (induction sched) simp_all

lemma backend_frame [simp]:
  "ss_client (backend_at i pc s) = ss_client s" "ss_received (backend_at i pc s) = ss_received s"
proof -
  show "ss_client (backend_at i pc s) = ss_client s"
    by (cases pc) (simp_all add: connectToBackend_def close_socket_def Let_def
        split: option.split sum.split prod.split)
  show "ss_received (backend_at i pc s) = ss_received s"
    by (cases pc) (simp_all add: connectToBackend_def close_socket_def Let_def
        split: option.split sum.split prod.split)
qed

lemma backend_only:
  "\<forall>gi\<in>set sched. fst gi = Backend \<Longrightarrow>
     ss_client (session_run um sched s) = ss_client s \<and> ss_received (session_run um sched s) = ss_received s \<and>
     ss_config (session_run um sched s) = ss_config s"
proof (induction sched arbitrary: s)
  case (Cons x sched)
  then obtain i where "x = (Backend, i)" by (cases x) auto
  with Cons show ?case by (cases "ss_crashed s") simp_all
qed simp

section \<open>Reconnecting\<close>

lemma retry_all:
  assumes "\<forall>i\<in>set is. connect_loop (wi_dial i) (wi_stats i) = None"
    and "ss_backend s = BRetry n" and "\<not> ss_crashed s"
    and "int (n + length is) = wc_MaxReconnects (ss_config s)"
  shows "session_run um (map (\<lambda>i. (Backend, i)) is) s =
    s\<lparr>ss_backend := BRetry (n + length is),
      ss_sleeps := ss_sleeps s @
        map (\<lambda>k. wrap64 (wc_ReconnectBackoff (ss_config s) * (int k + 1))) [n ..< n + length is]\<rparr>"
  using assms
proof (induction "is" arbitrary: s n)
  case Nil
  then have "s\<lparr>ss_backend := BRetry n\<rparr> = s" by (cases s) simp
  then show ?case by simp
next
  case (Cons i "is")
  let ?s = "s\<lparr>ss_backend := BRetry (Suc n),
      ss_sleeps := ss_sleeps s @ [wrap64 (wc_ReconnectBackoff (ss_config s) * (int n + 1))]\<rparr>"
  have "turn um (Backend, i) s = ?s" using Cons.prems by (simp add: Let_def)
  then have "session_run um (map (\<lambda>i. (Backend, i)) (i # is)) s =
      session_run um (map (\<lambda>i. (Backend, i)) is) ?s" by simp
  also have "\<dots> = ?s\<lparr>ss_backend := BRetry (Suc n + length is), ss_sleeps := ss_sleeps ?s @
      map (\<lambda>k. wrap64 (wc_ReconnectBackoff (ss_config ?s) * (int k + 1))) [Suc n ..< Suc n + length is]\<rparr>"
    by (rule Cons.IH) (use Cons.prems in auto)
  moreover have "[n ..< n + length (i # is)] = n # [Suc n ..< Suc n + length is]"
    by (simp add: upt_conv_Cons del: upt_Suc)
  ultimately show ?case by (simp del: upt_Suc)
qed

section \<open>Properties\<close>

definition sample_stats :: "string \<Rightarrow> EndpointStats" where
  "sample_stats url = \<lparr>es_URL = url, es_Healthy = True, es_BlockHeight = 0, es_LatencyMs = 0,
     es_TotalReqs = 0, es_FailedReqs = 0, es_LastError = None, es_LastChecked = 0\<rparr>"

text \<open>An environment: one endpoint that accepts connections or none, results of read and write.\<close>

definition sample_in ::
  "bool \<Rightarrow> go_error option \<Rightarrow> go_error + int \<times> bytes \<Rightarrow> go_error + int \<times> bytes \<Rightarrow> ws_in" where
  "sample_in accepts written fromClient fromBackend =
     \<lparr>wi_now = 0, wi_read = \<lparr>rr_pongs = [], rr_time = 1, rr_result = fromClient\<rparr>,
      wi_stats = [sample_stats ''http://a''],
      wi_dial = (\<lambda>url. if accepts then None else Some (ErrNew ''refused'')),
      wi_write = written, wi_message = fromBackend\<rparr>"

definition sample_session :: ClientSession where
  "sample_session = session_Run (sample_in True None (Inl (ErrNew ''eof'')) (Inl (ErrNew ''eof'')))
     (new_session ''eth'' DefaultConfig [])"

definition sample_um :: "bytes \<Rightarrow> go_error + ws_request" where
  "sample_um m = (if m = [] then Inl (ErrNew ''EOF'')
     else Inr \<lparr>wq_JSONRPC = ''2.0'', wq_Method = ''m'', wq_Params = [], wq_ID = JString m\<rparr>)"

text \<open>Both goroutines wait for a message.\<close>

definition sample_waiting :: ClientSession where
  "sample_waiting = sample_session\<lparr>ss_client := CRead, ss_backend := BReading 0\<rparr>"

lemmas sample_ws_defs =
  sample_in_def sample_session_def sample_waiting_def sample_um_def sample_stats_def new_session_def
  session_Run_def connectToBackend_def DefaultConfig_def httpToWS_def

text \<open>
  C28. However the two goroutines interleave and whatever fails: the well-formed requests that were
  read are, in order, either written unchanged to a backend once or given one error reply that
  carries the id, with at most one exception at the end of the list: the request being handled,
  or, when the goroutine of the client has panicked and the session is closing, the one request
  the panic lost, which is neither forwarded nor answered (\<open>request_lost_in_panic\<close> is such a run:
  the connection was set to nil between the client's check and its use).
\<close>

theorem requests_accounted:
  assumes "connect_loop (wi_dial i) (wi_stats i) \<noteq> None"
    and "s = session_run um sched (session_Run i (new_session chainName config ms))"
  shows "\<exists>rs lost. map snd (ss_received s) = rs @ lost \<and>
    answered rs (map snd (ss_sent s)) (refusals (ss_out s)) \<and>
    (lost = pending (ss_client s) \<or> ss_panicked s \<and> leaving (ss_client s) \<and> length lost \<le> 1)"
proof -
  have "accounted (session_Run i (new_session chainName config ms))"
    using assms(1) by (auto simp: session_Run_def new_session_def accounted_def)
  then have "accounted s" unfolding assms(2) by (rule accounted_run)
  then show ?thesis by (simp add: accounted_def accounts_def)
qed

definition sample_broken :: ws_in where
  "sample_broken = sample_in False (Some (ErrNew ''broken'')) (Inr (1, ''x'')) (Inl (ErrNew ''eof''))"

lemma sample_broken_run:
  "let s = session_run sample_um (replicate 9 (Client, sample_broken)) sample_session
   in map snd (ss_received s) = [(''x'', JString ''x'')] \<and> ss_sent s = [] \<and> ss_client s = CLoop \<and>
      ss_out s = [Reply (ws_error (JString ''x'') (- 32603) ''Backend connection lost'')]"
  by code_simp

theorem requests_accounted_witness:
  "answered [(''x'', JString ''x'')] [] [ws_error (JString ''x'') (- 32603) ''Backend connection lost'']"
proof -
  let ?i = "sample_in True None (Inl (ErrNew ''eof'')) (Inl (ErrNew ''eof''))"
  have c: "connect_loop (wi_dial ?i) (wi_stats ?i) \<noteq> None" by (simp add: sample_ws_defs)
  define s where "s = session_run sample_um (replicate 9 (Client, sample_broken))
    (session_Run ?i (new_session ''eth'' DefaultConfig []))"
  have run: "map snd (ss_received s) = [(''x'', JString ''x'')]" "ss_sent s = []" "ss_client s = CLoop"
    "ss_out s = [Reply (ws_error (JString ''x'') (- 32603) ''Backend connection lost'')]"
    using sample_broken_run unfolding s_def sample_session_def Let_def by blast+
  obtain rs lost where "map snd (ss_received s) = rs @ lost"
    and "answered rs (map snd (ss_sent s)) (refusals (ss_out s))"
    and "lost = pending (ss_client s) \<or> ss_panicked s \<and> leaving (ss_client s) \<and> length lost \<le> 1"
    using requests_accounted [OF c s_def] by blast
  then show ?thesis using run by simp
qed

lemma request_lost_in_panic:
  "let lost = sample_in True None (Inr (1, ''x'')) (Inl (ErrNew ''eof''));
       s = session_run sample_um (map (\<lambda>g. (g, lost)) (replicate 4 Client @ replicate 6 Backend @ [Client])) sample_session
   in map snd (ss_received s) = [(''x'', JString ''x'')] \<and> ss_sent s = [] \<and> ss_out s = [] \<and>
      ss_panicked s \<and> ss_client s = CClose \<and> \<not> ss_crashed s"
  by code_simp

text \<open>
  C31. A session ends with a new connection to a backend that nothing closes: when the client has
  gone, \<open>Close\<close> closes the connection, the other goroutine takes the failed read for a lost
  backend, dials again and only then sees that the session is over.
\<close>

theorem session_leaks_connection:
  assumes "ss_client s = CRead" and "ss_backend s = BReading c" and "ss_backendConn s = Some c"
    and "c < length (ss_conns s)" and "\<not> ss_crashed s" and "0 < wc_MaxReconnects (ss_config s)"
    and "rr_result (wi_read i1) = Inl e1" and "wi_message i2 = Inl e2"
    and "connect_loop (wi_dial i3) (wi_stats i3) = Some url"
  shows "let s' = session_run um
      [(Client, i1), (Client, i1), (Client, i1), (Client, i1),
       (Backend, i2), (Backend, i2), (Backend, i2), (Backend, i3), (Backend, i3), (Backend, i3)] s
    in \<not> ss_conns s' ! c \<and> ss_conns s' ! length (ss_conns s) \<and> ss_client s' = CDone \<and> ss_backend s' = BDone \<and>
       \<not> ss_crashed s' \<and> (\<forall>sched. session_run um sched s' = s')"
proof -
  let ?d = "pong_deadline (wc_PongTimeout (ss_config s)) (rr_pongs (wi_read i1)) (ss_readDeadline s)"
    and ?conns = "(ss_conns s)[c := False]"
  let ?s1 = "s\<lparr>ss_readDeadline := ?d, ss_done := True, ss_clientClosed := True, ss_conns := ?conns, ss_client := CDone\<rparr>"
    and ?sleeps = "ss_sleeps s @ [wrap64 (wc_ReconnectBackoff (ss_config s))]"
  let ?s2 = "?s1\<lparr>ss_backendConn := Some (length (ss_conns s)), ss_conns := ?conns @ [True], ss_sleeps := ?sleeps,
      ss_backend := BDone\<rparr>"
  have 1: "session_run um [(Client, i1), (Client, i1), (Client, i1), (Client, i1)] s = ?s1"
    using assms(1,3,5,7) by (simp add: close_socket_def)
  have 2: "session_run um [(Backend, i2), (Backend, i2), (Backend, i2)] ?s1 =
      ?s1\<lparr>ss_backendConn := None, ss_backend := BRetry 0\<rparr>"
    using assms(2,3,5,8) by (simp add: close_socket_def)
  have 3: "session_run um [(Backend, i3), (Backend, i3), (Backend, i3)] (?s1\<lparr>ss_backendConn := None, ss_backend := BRetry 0\<rparr>) = ?s2"
    using assms(5,6,9) by simp
  have "session_run um ([(Client, i1), (Client, i1), (Client, i1), (Client, i1)] @
      [(Backend, i2), (Backend, i2), (Backend, i2)] @ [(Backend, i3), (Backend, i3), (Backend, i3)]) s = ?s2"
    by (simp only: session_run_simps(3) 1 2 3)
  note run = this [unfolded append.simps]
  have over: "session_run um sched ?s2 = ?s2" for sched by (rule session_over) simp_all
  show ?thesis
    unfolding Let_def run over using assms(4,5) by (simp add: nth_append)
qed

definition sample_gone :: ws_in where
  "sample_gone = sample_in True None (Inl (ErrNew ''eof'')) (Inl (ErrNew ''closed''))"

theorem session_leaks_connection_witness:
  "length (ss_conns sample_waiting) = 1 \<and>
   ss_conns (session_run sample_um
     [(Client, sample_gone), (Client, sample_gone), (Client, sample_gone), (Client, sample_gone),
      (Backend, sample_gone), (Backend, sample_gone), (Backend, sample_gone),
      (Backend, sample_gone), (Backend, sample_gone), (Backend, sample_gone)] sample_waiting) ! 1"
proof -
  have "ss_client sample_waiting = CRead" "ss_backend sample_waiting = BReading 0"
    "ss_backendConn sample_waiting = Some 0" "0 < length (ss_conns sample_waiting)"
    "\<not> ss_crashed sample_waiting" "0 < wc_MaxReconnects (ss_config sample_waiting)"
    "rr_result (wi_read sample_gone) = Inl (ErrNew ''eof'')"
    "wi_message sample_gone = Inl (ErrNew ''closed'')"
    "connect_loop (wi_dial sample_gone) (wi_stats sample_gone) = Some ''ws://a''"
    by (simp_all add: sample_gone_def sample_ws_defs del: One_nat_def)
  note r = session_leaks_connection [OF this, of sample_um, unfolded Let_def]
  have l: "length (ss_conns sample_waiting) = 1" by (simp add: sample_ws_defs)
  from r show ?thesis unfolding l by blast
qed

text \<open>
  C30. A failed write to a backend can end the process: the client's goroutine closes the
  connection, which makes the other goroutine's read fail, and sets it to nil before that one
  closes it too. The panic is in a goroutine nothing recovers.
\<close>

theorem write_failure_crashes:
  assumes "ss_client s = CWrite m rid" and "ss_backend s = BReading c" and "ss_backendConn s = Some c"
    and "\<not> ss_crashed s" and "wi_write i1 = Some e1" and "wi_message i2 = Inl e2"
  shows "ss_crashed (session_run um
    [(Client, i1), (Client, i1), (Backend, i2), (Client, i1), (Backend, i2)] s)"
  using assms by (simp add: close_socket_def)

theorem write_failure_crashes_witness:
  "let broken = sample_in True (Some (ErrNew ''broken'')) (Inl (ErrNew ''eof'')) (Inl (ErrNew ''closed''))
   in ss_crashed (session_run sample_um
     [(Client, broken), (Client, broken), (Backend, broken), (Client, broken), (Backend, broken)]
     (sample_waiting\<lparr>ss_client := CWrite ''x'' JNull\<rparr>))"
  unfolding Let_def
  by (rule write_failure_crashes [of _ "''x''" JNull 0]) (simp_all add: sample_ws_defs)

text \<open>
  C29. It is the only way: while no write to a backend fails, no interleaving of the goroutines, lost
  connections and failed reconnections included, ends the process.
\<close>

theorem crash_needs_write_failure:
  assumes "\<forall>gi\<in>set sched. calm gi"
  shows "\<not> ss_crashed (session_run um sched (session_Run i (new_session chainName config ms)))"
proof -
  have "steady (session_Run i (new_session chainName config ms))"
    by (cases "connect_loop (wi_dial i) (wi_stats i)")
      (simp_all add: session_Run_def new_session_def steady_def sendError_def)
  with steady_run [OF this assms] show ?thesis by (simp add: steady_def)
qed

theorem crash_needs_write_failure_witness:
  "let lost = sample_in False None (Inr (1, ''x'')) (Inl (ErrNew ''eof''))
   in \<not> ss_crashed (session_run sample_um (map (\<lambda>g. (g, lost)) (concat (replicate 9 [Backend, Client]))) sample_session)"
proof -
  let ?l = "sample_in False None (Inr (1, ''x'')) (Inl (ErrNew ''eof''))"
  have "\<forall>gi\<in>set (map (\<lambda>g. (g, ?l)) (concat (replicate 9 [Backend, Client]))). calm gi"
    by (auto simp: calm_def sample_in_def split: goroutine.split)
  from crash_needs_write_failure [OF this] show ?thesis by (simp only: Let_def sample_session_def) blast
qed

text \<open>
  C32. \<open>StartPinger\<close> has no caller, and at the default settings it would come too late: a session that
  has started arms its read deadline at the first step of the client's goroutine, at
  \<open>wi_now i1\<close>, and when the client sends no pong before the first ping could reach it, the
  connection is read for \<open>PongTimeout\<close> from then only. No message that arrives later is received,
  however busy the session is.
\<close>

theorem session_deaf_after_timeout:
  assumes "connect_loop (wi_dial i) (wi_stats i) \<noteq> None"
    and "s = session_Run i (new_session chainName config ms)"
    and "sched = pre @ (Client, i1) # post" and "\<forall>gi\<in>set pre. fst gi = Backend"
    and "lawful um sched s" and "wc_PongTimeout config < wc_PingInterval config"
    and "\<forall>(g, i)\<in>set sched. \<forall>p\<in>set (rr_pongs (wi_read i)). wi_now i1 + wc_PingInterval config \<le> p"
  shows "\<forall>(t, m, r)\<in>set (ss_received (session_run um sched s)). t \<le> wi_now i1 + wc_PongTimeout config"
proof -
  let ?s1 = "session_run um pre s" and ?d = "wi_now i1 + wc_PongTimeout config"
  have s: "ss_client s = CStart" "ss_received s = []" "ss_config s = config"
    using assms(1) by (auto simp: assms(2) session_Run_def new_session_def)
  have s1: "ss_client ?s1 = CStart" "ss_received ?s1 = []" "ss_config ?s1 = config"
    using backend_only [OF assms(4), of um s] s by simp_all
  have run: "session_run um sched s = session_run um ((Client, i1) # post) ?s1"
    by (simp only: assms(3) session_run_simps(3))
  show ?thesis
  proof (cases "ss_crashed ?s1")
    case True
    then show ?thesis unfolding run using s1 by (simp add: crashed_run)
  next
    case False
    let ?s2 = "turn um (Client, i1) ?s1"
    have "armed ?d ?s2" using s1 False by (simp add: armed_def)
    moreover have "lawful um post ?s2" using assms(3,5) by (simp add: lawful_append)
    moreover have "\<forall>(g, i)\<in>set post. \<forall>p\<in>set (rr_pongs (wi_read i)). ?d < p"
      using assms(3,6,7) by fastforce
    ultimately have "armed ?d (session_run um post ?s2)" by (rule armed_run)
    then show ?thesis unfolding run by (simp add: armed_def)
  qed
qed

lemma sample_deaf_run:
  "let i = sample_in True None (Inr (1, ''x'')) (Inl (ErrNew ''eof''))
   in map (fst \<circ> snd) (ss_received
        (session_run sample_um [(Backend, i), (Client, i), (Client, i), (Client, i)] sample_session)) = [''x'']"
  by code_simp

theorem session_deaf_after_timeout_witness:
  "let i = sample_in True None (Inr (1, ''x'')) (Inl (ErrNew ''eof''));
       s = session_run sample_um [(Backend, i), (Client, i), (Client, i), (Client, i)] sample_session
   in (\<forall>(t, m, r)\<in>set (ss_received s). t \<le> 10 * second) \<and> map (fst \<circ> snd) (ss_received s) = [''x'']"
proof -
  let ?i = "sample_in True None (Inr (1, ''x'')) (Inl (ErrNew ''eof''))"
    and ?first = "sample_in True None (Inl (ErrNew ''eof'')) (Inl (ErrNew ''eof''))"
  let ?sched = "[(Backend, ?i), (Client, ?i), (Client, ?i), (Client, ?i)]"
  have a: "connect_loop (wi_dial ?first) (wi_stats ?first) \<noteq> None"
    and b: "?sched = [(Backend, ?i)] @ (Client, ?i) # [(Client, ?i), (Client, ?i)]"
    and c: "\<forall>gi\<in>set [(Backend, ?i)]. fst gi = Backend"
    and e: "wc_PongTimeout DefaultConfig < wc_PingInterval DefaultConfig"
    and f: "\<forall>(g, i)\<in>set ?sched. \<forall>p\<in>set (rr_pongs (wi_read i)). wi_now ?i + wc_PingInterval DefaultConfig \<le> p"
    by (simp_all add: sample_ws_defs)
  have d: "lawful sample_um ?sched sample_session" by code_simp
  have n: "wi_now ?i + wc_PongTimeout DefaultConfig = 10 * second"
    by (simp add: sample_ws_defs)
  note received = sample_deaf_run [unfolded Let_def]
  have bound: "\<forall>(t, m, r)\<in>set (ss_received (session_run sample_um ?sched sample_session)). t \<le> 10 * second"
    using session_deaf_after_timeout [OF a sample_session_def b c d e f] by (simp only: n)
  show ?thesis unfolding Let_def by (intro conjI bound received)
qed

text \<open>
  C33. A lost backend is given up: after \<open>MaxReconnects\<close> failed attempts the goroutine returns. The
  pauses grow linearly, \<open>ReconnectBackoff\<close> times 1, 2, 3, and so on, not exponentially.
\<close>

theorem reconnect_gives_up:
  assumes "ss_backend s = BNil" and "\<not> ss_crashed s" and "int (length is) = wc_MaxReconnects (ss_config s)"
    and "\<forall>i\<in>set is. connect_loop (wi_dial i) (wi_stats i) = None"
  shows "session_run um (map (\<lambda>i. (Backend, i)) (i0 # is @ [i1, i2])) s =
    s\<lparr>ss_backendConn := None, ss_backend := BDone,
      ss_sleeps := ss_sleeps s @
        map (\<lambda>k. wrap64 (wc_ReconnectBackoff (ss_config s) * (int k + 1))) [0 ..< length is]\<rparr>"
proof -
  let ?s = "s\<lparr>ss_backendConn := None, ss_backend := BRetry 0\<rparr>"
  have "turn um (Backend, i0) s = ?s" using assms(1,2) by simp
  then show ?thesis
    using retry_all [of "is" ?s 0 um] assms by simp
qed

theorem reconnect_gives_up_witness:
  "let gone = sample_in False None (Inl (ErrNew ''eof'')) (Inl (ErrNew ''closed''));
       s = session_run sample_um (replicate 8 (Backend, gone)) (sample_waiting\<lparr>ss_backend := BNil\<rparr>)
   in ss_backend s = BDone \<and> ss_sleeps s = [1 * second, 2 * second, 3 * second, 4 * second, 5 * second]"
proof -
  let ?i = "sample_in False None (Inl (ErrNew ''eof'')) (Inl (ErrNew ''closed''))"
    and ?s = "sample_waiting\<lparr>ss_backend := BNil\<rparr>"
  have "ss_backend ?s = BNil" "\<not> ss_crashed ?s"
    "int (length (replicate 5 ?i)) = wc_MaxReconnects (ss_config ?s)"
    "\<forall>i\<in>set (replicate 5 ?i). connect_loop (wi_dial i) (wi_stats i) = None"
    by (simp_all add: sample_ws_defs)
  note r = reconnect_gives_up [OF this, of sample_um ?i ?i ?i]
  have l: "map (\<lambda>i. (Backend, i)) (?i # replicate 5 ?i @ [?i, ?i]) = replicate 8 (Backend, ?i)"
    by (simp add: numeral_eq_Suc)
  have "ss_config ?s = DefaultConfig" "ss_sleeps ?s = []" by (simp_all add: sample_ws_defs)
  with r show ?thesis unfolding Let_def l
    by (simp add: DefaultConfig_def wrap64_def upt_rec)
qed

end
