(* ===== verification/Startup.thy ===== *)
theory Startup
  imports ClientTLS Grpc
begin

text \<open>
  \<open>cmd/proxy/main.go\<close> and \<open>internal/grpc/server.go\<close>: from the command line to the running proxy,
  the routes of the HTTP server and the order of the shutdown. Files, certificates and sockets
  are the environment. How a path is matched against a registered pattern is fiber's and an
  argument; which routes there are and what they do is \<open>main\<close>'s.
\<close>

section \<open>The gRPC server\<close>

datatype grpc_service = RPCService | HealthService | StandardHealth

record grpc_server =
  gsv_config :: GRPCConfig
  gsv_creds :: "(string \<times> string) option"
  gsv_services :: "grpc_service list"
  gsv_listener :: "string option"

definition grpc_NewServer ::
  "(string \<Rightarrow> string \<Rightarrow> go_error option) \<Rightarrow> GRPCConfig \<Rightarrow> go_error + grpc_server" where
  "grpc_NewServer credentials cfg =
     (let sv = \<lparr>gsv_config = cfg, gsv_creds = None, gsv_services = [], gsv_listener = None\<rparr>;
          cert = tls_CertFile (grpc_TLS cfg); key = tls_KeyFile (grpc_TLS cfg)
      in if tls_Enabled (grpc_TLS cfg)
         then (case credentials cert key of
                 Some err \<Rightarrow> Inl (ErrWrap ''failed to load TLS credentials'' err)
               | None \<Rightarrow> Inr (sv\<lparr>gsv_creds := Some (cert, key)\<rparr>))
         else Inr sv)"

definition port_addr :: "int \<Rightarrow> string" where
  "port_addr port = '':'' @ itoa port"

definition grpc_Start :: "(string \<Rightarrow> go_error option) \<Rightarrow> grpc_server \<Rightarrow> go_error + grpc_server" where
  "grpc_Start listen sv =
     (let addr = port_addr (grpc_Port (gsv_config sv))
      in case listen addr of
           Some err \<Rightarrow> Inl (ErrWrap ''failed to listen'' err)
         | None \<Rightarrow> Inr (sv\<lparr>gsv_listener := Some addr,
             gsv_services := gsv_services sv @ [RPCService, HealthService, StandardHealth]\<rparr>))"

definition grpc_Stop :: "grpc_server \<Rightarrow> grpc_server" where
  "grpc_Stop sv = sv\<lparr>gsv_listener := None\<rparr>"

section \<open>Start-up\<close>

text \<open>\<open>log.Fatalf\<close> and a panic both end the process.\<close>

datatype exit = Fatal string | Died string

record ('pool, 'cert) main_env =
  me_readFile :: "string \<Rightarrow> go_error + bytes"
  me_yaml :: "bytes \<Rightarrow> go_error + Config"
  me_pem :: "bytes \<Rightarrow> 'pool option"
  me_pair :: "string \<Rightarrow> string \<Rightarrow> go_error + 'cert"
  me_credentials :: "string \<Rightarrow> string \<Rightarrow> go_error option"
  me_listen :: "string \<Rightarrow> go_error option"

datatype http_listener = Listen string | ListenTLS string string string

record fiber_config =
  fb_ReadTimeout :: duration
  fb_WriteTimeout :: duration
  fb_BodyLimit :: int

record ('pool, 'cert) running =
  rn_server :: "('pool, 'cert) tls_config server"
  rn_fiber :: fiber_config
  rn_metrics :: "string option"
  rn_grpc :: "grpc_server option"
  rn_http :: "http_listener option"

text \<open>The flag \<open>-config\<close>.\<close>

definition config_path :: "string option \<Rightarrow> string" where
  "config_path flag = (case flag of None \<Rightarrow> ''configs/config.yaml'' | Some p \<Rightarrow> p)"

text \<open>The chain constructor reads through the pointer of every chain's configuration.\<close>

fun deref_chains :: "ChainConfig option gomap \<Rightarrow> ChainConfig gomap outcome" where
  "deref_chains [] = Return []"
| "deref_chains ((name, None) # cs) = Panic ''nil pointer dereference''"
| "deref_chains ((name, Some c) # cs) =
     (case deref_chains cs of Panic e \<Rightarrow> Panic e | Return cs' \<Rightarrow> Return ((name, c) # cs'))"

definition main_server ::
  "Config \<Rightarrow> ChainConfig gomap \<Rightarrow> 'tls option \<Rightarrow> 'tls server" where
  "main_server cfg cfgs tls =
     \<lparr>sv_manager = Manager_Start (NewManagerWithOptions cfgs tls),
      sv_cache = NewInMemory (cfg_Cache cfg), sv_limiter = NewRateLimiter (cfg_RateLimit cfg),
      sv_metrics = []\<rparr>"

definition main_grpc ::
  "('pool, 'cert) main_env \<Rightarrow> Config \<Rightarrow> exit + grpc_server option" where
  "main_grpc env cfg =
     (if grpc_Enabled (cfg_GRPC cfg)
      then (case grpc_NewServer (me_credentials env) (cfg_GRPC cfg) of
              Inl err \<Rightarrow> Inl (Fatal (''Failed to create gRPC server: '' @ error_text err))
            | Inr sv \<Rightarrow>
                (case grpc_Start (me_listen env) sv of
                   Inl err \<Rightarrow> Inl (Fatal (''Failed to start gRPC server: '' @ error_text err))
                 | Inr sv \<Rightarrow> Inr (Some sv)))
      else Inr None)"

definition http_listener :: "Config \<Rightarrow> http_listener" where
  "http_listener cfg =
     (let addr = port_addr (srv_Port (cfg_Server cfg)); tls = srv_TLS (cfg_Server cfg)
      in if tls_Enabled tls then ListenTLS addr (tls_CertFile tls) (tls_KeyFile tls) else Listen addr)"

definition main_start :: "('pool, 'cert) main_env \<Rightarrow> string option \<Rightarrow> exit + ('pool, 'cert) running" where
  "main_start env flag =
     (case Load (me_readFile env) (me_yaml env) (config_path flag) of
        Panic e \<Rightarrow> Inl (Died e)
      | Return (Inl err) \<Rightarrow> Inl (Fatal (''Failed to load config: '' @ error_text err))
      | Return (Inr cfg) \<Rightarrow>
          (case (if ctls_Enabled (tls_ClientTLS (srv_TLS (cfg_Server cfg)))
                 then NewClientTLSConfig (me_readFile env) (me_pem env) (me_pair env)
                        (tls_ClientTLS (srv_TLS (cfg_Server cfg)))
                 else Inr None) of
             Inl err \<Rightarrow> Inl (Fatal (''Failed to create client TLS config: '' @ error_text err))
           | Inr tls \<Rightarrow>
               (case deref_chains (cfg_Chains cfg) of
                  Panic e \<Rightarrow> Inl (Died e)
                | Return cfgs \<Rightarrow>
                    (case main_grpc env cfg of
                       Inl x \<Rightarrow> Inl x
                     | Inr grpc \<Rightarrow> Inr
                         \<lparr>rn_server = main_server cfg cfgs tls,
                          rn_fiber = \<lparr>fb_ReadTimeout = srv_ReadTimeout (cfg_Server cfg),
                            fb_WriteTimeout = srv_WriteTimeout (cfg_Server cfg),
                            fb_BodyLimit = 10 * 1024 * 1024\<rparr>,
                          rn_metrics = (if met_Enabled (cfg_Metrics cfg)
                            then Some (port_addr (met_Port (cfg_Metrics cfg))) else None),
                          rn_grpc = grpc, rn_http = Some (http_listener cfg)\<rparr>))))"

text \<open>The shutdown after a signal; an error of the HTTP server's shutdown is only logged.\<close>

definition main_shutdown :: "('pool, 'cert) running \<Rightarrow> ('pool, 'cert) running" where
  "main_shutdown rn =
     (let rn = rn\<lparr>rn_http := None\<rparr>;
          rn = (case rn_grpc rn of None \<Rightarrow> rn | Some sv \<Rightarrow> rn\<lparr>rn_grpc := Some (grpc_Stop sv)\<rparr>);
          sv = rn_server rn
      in rn\<lparr>rn_server := sv\<lparr>sv_manager := Manager_Stop (sv_manager sv)\<rparr>\<rparr>)"

section \<open>Routes\<close>

datatype route_handler =
    RootHandler | HealthHandler | ChainHealthHandler | ChainsHandler | LimiterMiddleware | RPCHandler

text \<open>A route without a method is middleware of a group: any method, any path under the pattern.\<close>

record route =
  rt_method :: "string option"
  rt_pattern :: string
  rt_handler :: route_handler

definition main_routes :: "route list" where
  "main_routes =
     [\<lparr>rt_method = Some ''GET'', rt_pattern = ''/'', rt_handler = RootHandler\<rparr>,
      \<lparr>rt_method = Some ''GET'', rt_pattern = ''/health'', rt_handler = HealthHandler\<rparr>,
      \<lparr>rt_method = Some ''GET'', rt_pattern = ''/health/:chain'', rt_handler = ChainHealthHandler\<rparr>,
      \<lparr>rt_method = Some ''GET'', rt_pattern = ''/chains'', rt_handler = ChainsHandler\<rparr>,
      \<lparr>rt_method = None, rt_pattern = ''/:chain'', rt_handler = LimiterMiddleware\<rparr>,
      \<lparr>rt_method = Some ''POST'', rt_pattern = ''/:chain/'', rt_handler = RPCHandler\<rparr>]"

definition HandleRoot :: "response \<times> 'tls server \<Rightarrow> response \<times> 'tls server" where
  "HandleRoot s =
     (case s of (r, sv) \<Rightarrow>
       (send_json (rsp_Status r) (JObject
          [(''name'', JString ''multichain-rpc-proxy''), (''version'', JString ''1.0.0''),
           (''docs'', JString ''https://github.com/bimakw/multichain-rpc-proxy'')]) r, sv))"

text \<open>
  \<open>matching rt rq\<close>: whether the route applies to the request, with the value of its \<open>:chain\<close> (empty
  when the pattern has none). A request that no handler ends is an error of fiber's.
\<close>

record 'tls app_env =
  ap_matching :: "route \<Rightarrow> request \<Rightarrow> string option"
  ap_decode :: "bytes \<Rightarrow> go_error + rpcRequest"
  ap_compress :: "'tls handler \<Rightarrow> 'tls handler"
  ap_now :: time
  ap_rpc :: "'tls rpc_env"
  ap_notFound :: go_error

fun dispatch :: "'tls app_env \<Rightarrow> route list \<Rightarrow> request \<Rightarrow> 'tls handler" where
  "dispatch env [] rq s = (Return (Some (ap_notFound env)), s)"
| "dispatch env (rt # rts) rq s =
     (case ap_matching env rt rq of
        None \<Rightarrow> dispatch env rts rq s
      | Some chain \<Rightarrow>
          (let crq = rq\<lparr>rqs_Chain := chain\<rparr>
           in case rt_handler rt of
                RootHandler \<Rightarrow> (Return None, HandleRoot s)
              | HealthHandler \<Rightarrow> (Return None, HandleHealth s)
              | ChainHealthHandler \<Rightarrow> (Return None, HandleChainHealth crq s)
              | ChainsHandler \<Rightarrow> (Return None, HandleChains s)
              | LimiterMiddleware \<Rightarrow> RateLimit_Middleware (ap_now env) crq (dispatch env rts rq) s
              | RPCHandler \<Rightarrow> (Return None, HandleRPC (ap_decode env) (ap_rpc env) crq s)))"

text \<open>\<open>ErrorHandler\<close> of \<open>main\<close>: the same answer for every error.\<close>

definition error_handler :: "go_error \<Rightarrow> response \<Rightarrow> response" where
  "error_handler err r = send_json 500 internal_error_json r"

text \<open>
  One request through the application. The request's \<open>rqs_Chain\<close> is what \<open>c.Params\<close> gives the
  recovery middleware, that is, after a panic.
\<close>

definition app_handler :: "'tls app_env \<Rightarrow> request \<Rightarrow> 'tls server \<Rightarrow> response \<times> 'tls server" where
  "app_handler env rq sv =
     (case RecoveryMiddleware rq (CORSMiddleware rq (ap_compress env (dispatch env main_routes rq)))
             (new_response, sv) of
        (Return None, r, sv') \<Rightarrow> (r, sv')
      | (Return (Some err), r, sv') \<Rightarrow> (error_handler err r, sv')
      | (Panic e, r, sv') \<Rightarrow> (r, sv'))"

section \<open>What start-up builds\<close>

lemma deref_chains_eq:
  "deref_chains cs =
     (if \<forall>(name, c)\<in>set cs. c \<noteq> None then Return (map (\<lambda>(name, c). (name, the c)) cs)
      else Panic ''nil pointer dereference'')"
  by (induction cs rule: deref_chains.induct) auto

lemma Load_Inr:
  assumes "Load readFile unmarshal path = Return (Inr cfg)"
  shows "\<exists>data raw. readFile path = Inr data \<and> unmarshal data = Inr raw \<and>
    (\<forall>(name, c)\<in>set (cfg_Chains raw). c \<noteq> None) \<and>
    cfg = (server_defaults raw)\<lparr>cfg_Chains := map (\<lambda>(name, c). (name, map_option with_pool_defaults c)) (cfg_Chains raw)\<rparr>"
  using assms
  by (auto simp: Load_def chain_defaults_eq Let_def split: sum.splits outcome.splits if_splits)

lemma main_start_Inr:
  assumes "main_start env flag = Inr rn"
  shows "\<exists>data raw tls cfg. me_readFile env (config_path flag) = Inr data \<and> me_yaml env data = Inr raw \<and>
    (\<forall>(name, c)\<in>set (cfg_Chains raw). c \<noteq> None) \<and>
    rn_server rn = main_server cfg
      (map (\<lambda>(name, c). (name, with_pool_defaults (the c))) (cfg_Chains raw)) tls \<and>
    cfg_RateLimit cfg = cfg_RateLimit raw"
proof -
  from assms obtain cfg tls cfgs where
    l: "Load (me_readFile env) (me_yaml env) (config_path flag) = Return (Inr cfg)"
    and d: "deref_chains (cfg_Chains cfg) = Return cfgs"
    and sv: "rn_server rn = main_server cfg cfgs tls"
    by (auto simp: main_start_def split: outcome.splits sum.splits)
  from Load_Inr [OF l] obtain data raw where
    r: "me_readFile env (config_path flag) = Inr data" "me_yaml env data = Inr raw"
    and n: "\<forall>(name, c)\<in>set (cfg_Chains raw). c \<noteq> None"
    and c: "cfg = (server_defaults raw)
      \<lparr>cfg_Chains := map (\<lambda>(name, c). (name, map_option with_pool_defaults c)) (cfg_Chains raw)\<rparr>"
    by blast
  have "cfgs = map (\<lambda>(name, c). (name, with_pool_defaults (the c))) (cfg_Chains raw)"
    using d n by (fastforce simp: c deref_chains_eq option.map_sel split: if_splits)
  moreover have "cfg_RateLimit cfg = cfg_RateLimit raw" by (simp add: c server_defaults_def)
  ultimately show ?thesis using r n sv by blast
qed

text \<open>Weights that no conversion or sum of the balancer distorts.\<close>

definition weights_ok :: "ChainConfig \<Rightarrow> bool" where
  "weights_ok c \<longleftrightarrow> (\<forall>e\<in>set (cc_Endpoints c). 0 \<le> epc_Weight e) \<and>
     sum_list (map epc_Weight (cc_Endpoints c)) < 2 ^ 63"

lemma healthy_endpoint_of_config [simp]: "healthy (endpoint_of_config tls cfg e)"
  by (simp add: endpoint_of_config_def NewEndpointWithOptions_def Let_def)

text \<open>A chain as \<open>main\<close> leaves it: started, well formed, every endpoint taken for healthy.\<close>

definition chain_fresh :: "nat \<Rightarrow> 'tls Chain \<Rightarrow> bool" where
  "chain_fresh n ch \<longleftrightarrow> chain_ok ch \<and> hk_running (healthChecker ch) \<and> length (endpoints ch) = n \<and>
     (\<forall>e\<in>set (endpoints ch). healthy e)"

lemma chain_fresh_start:
  assumes "weights_ok c"
  shows "chain_fresh (length (cc_Endpoints c))
    ((NewChainWithOptions \<lparr>co_Name = name, co_Config = with_pool_defaults c, co_TLSConfig = tls\<rparr>)
       \<lparr>healthChecker := h\<lparr>hk_running := True\<rparr>\<rparr>)"
proof -
  let ?ch = "NewChainWithOptions \<lparr>co_Name = name, co_Config = with_pool_defaults c, co_TLSConfig = tls\<rparr>"
  have e: "cc_Endpoints (with_pool_defaults c) = cc_Endpoints c" by (simp add: with_pool_defaults_def)
  have "chain_ok ?ch" using assms by (intro chain_ok_new) (simp_all add: weights_ok_def e)
  moreover have "endpoints ?ch = map (endpoint_of_config tls (with_pool_defaults c)) (cc_Endpoints c)"
    by (simp add: NewChainWithOptions_def Let_def e)
  ultimately show ?thesis by (auto simp: chain_fresh_def chain_ok_def)
qed

lemma main_server_fresh:
  assumes "\<forall>(name, c)\<in>set cfgs. weights_ok c"
  shows "list_all2 (\<lambda>(name, c) (name', ch). name' = name \<and> chain_fresh (length (cc_Endpoints c)) ch)
    cfgs (sv_manager (main_server cfg (map (\<lambda>(name, c). (name, with_pool_defaults c)) cfgs) tls))"
  using assms
  by (induction cfgs)
    (auto simp: main_server_def Manager_Start_def NewManagerWithOptions_def chain_fresh_start)

text \<open>After the shutdown nothing listens and no checker runs.\<close>

lemma shutdown_stops:
  "rn_http (main_shutdown rn) = None"
  "map_option gsv_listener (rn_grpc (main_shutdown rn)) \<in> {None, Some None}"
  "\<forall>(name, ch)\<in>set (sv_manager (rn_server (main_shutdown rn))). \<not> hk_running (healthChecker ch)"
  by (auto simp: main_shutdown_def grpc_Stop_def Manager_Stop_def Let_def split: option.split)

section \<open>What the application answers\<close>

text \<open>
  The handlers of the routes that apply to a request, in the order of the routes, with the value
  each gets for \<open>:chain\<close>. Fiber tries the routes in this order, and the answer of \<open>dispatch\<close>
  depends on nothing else.
\<close>

fun matched :: "'tls app_env \<Rightarrow> route list \<Rightarrow> request \<Rightarrow> (route_handler \<times> string) list" where
  "matched env [] rq = []"
| "matched env (rt # rts) rq =
     (case ap_matching env rt rq of
        None \<Rightarrow> matched env rts rq
      | Some chain \<Rightarrow> (rt_handler rt, chain) # matched env rts rq)"

text \<open>The response as the middleware of \<open>main\<close> leaves it for the routes.\<close>

definition cors_response :: response where
  "cors_response = set_header ''Access-Control-Allow-Headers'' ''Content-Type, Authorization''
      (set_header ''Access-Control-Allow-Methods'' ''GET, POST, OPTIONS''
        (set_header ''Access-Control-Allow-Origin'' ''*'' new_response))"

section \<open>Properties\<close>

text \<open>
  C25. What \<open>main\<close> starts is well formed: for a file whose weights fit, the manager has exactly the
  configured chains, each with its checker running, its balancer consistent with its
  endpoints and every endpoint taken for healthy; cache and limiter are empty.
\<close>

theorem started_proxy_well_formed:
  assumes "main_start env flag = Inr rn"
    and "\<forall>data raw. me_readFile env (config_path flag) = Inr data \<and> me_yaml env data = Inr raw \<longrightarrow>
      (\<forall>(name, c)\<in>set (cfg_Chains raw). c \<noteq> None \<longrightarrow> weights_ok (the c))"
  shows "\<exists>data raw. me_readFile env (config_path flag) = Inr data \<and> me_yaml env data = Inr raw \<and>
    list_all2 (\<lambda>(name, c) (name', ch). name' = name \<and> c \<noteq> None \<and>
        chain_fresh (length (cc_Endpoints (the c))) ch) (cfg_Chains raw) (sv_manager (rn_server rn)) \<and>
    mc_data (sv_cache (rn_server rn)) = Map.empty \<and>
    rlm_buckets (sv_limiter (rn_server rn)) = Map.empty \<and>
    rlm_enabled (sv_limiter (rn_server rn)) = rl_Enabled (cfg_RateLimit raw)"
proof -
  from main_start_Inr [OF assms(1)] obtain data raw tls cfg where
    r: "me_readFile env (config_path flag) = Inr data" "me_yaml env data = Inr raw"
    and n: "\<forall>(name, c)\<in>set (cfg_Chains raw). c \<noteq> None"
    and sv: "rn_server rn = main_server cfg
      (map (\<lambda>(name, c). (name, with_pool_defaults (the c))) (cfg_Chains raw)) tls"
    and l: "cfg_RateLimit cfg = cfg_RateLimit raw" by blast
  let ?cfgs = "map (\<lambda>(name, c). (name, the c)) (cfg_Chains raw)"
  have w: "\<forall>(name, c)\<in>set ?cfgs. weights_ok c" using assms(2) r n by fastforce
  have m: "map (\<lambda>(name, c). (name, with_pool_defaults (the c))) (cfg_Chains raw) =
      map (\<lambda>(name, c). (name, with_pool_defaults c)) ?cfgs" by auto
  from main_server_fresh [OF w, of cfg tls, unfolded list_all2_map1 m [symmetric]]
  have "list_all2 (\<lambda>(name, c) (name', ch). name' = name \<and> c \<noteq> None \<and>
      chain_fresh (length (cc_Endpoints (the c))) ch) (cfg_Chains raw) (sv_manager (rn_server rn))"
    unfolding sv by (rule list.rel_mono_strong) (use n in auto)
  with r show ?thesis by (auto simp: sv l main_server_def NewInMemory_def NewRateLimiter_def)
qed

definition sample_main_env :: "Config \<Rightarrow> (unit, unit) main_env" where
  "sample_main_env cfg = \<lparr>me_readFile = (\<lambda>_. Inr ''yaml''), me_yaml = (\<lambda>_. Inr cfg), me_pem = (\<lambda>_. None),
     me_pair = (\<lambda>_ _. Inl (ErrNew ''no key'')), me_credentials = (\<lambda>_ _. None), me_listen = (\<lambda>_. None)\<rparr>"

lemma list_all2_single:
  "list_all2 P [x] ys \<Longrightarrow> (\<And>y. ys = [y] \<Longrightarrow> P x y \<Longrightarrow> thesis) \<Longrightarrow> thesis"
  by (cases ys) auto

theorem started_proxy_well_formed_witness:
  "\<exists>rn. main_start (sample_main_env sample_config) None = Inr rn \<and>
     map fst (sv_manager (rn_server rn)) = [''ethereum''] \<and> chain_ok (snd (sv_manager (rn_server rn) ! 0))"
proof -
  let ?env = "sample_main_env sample_config"
  define cfg where "cfg = (server_defaults sample_config)
    \<lparr>cfg_Chains := map (\<lambda>(name, c). (name, map_option with_pool_defaults c)) (cfg_Chains sample_config)\<rparr>"
  have "\<forall>(name, c)\<in>set (cfg_Chains sample_config). c \<noteq> None" by (simp add: sample_config_def Let_def)
  then have l: "Load (me_readFile ?env) (me_yaml ?env) (config_path None) = Return (Inr cfg)"
    and d: "\<exists>cfgs. deref_chains (cfg_Chains cfg) = Return cfgs"
    by (auto simp: Load_def chain_defaults_eq deref_chains_eq sample_main_env_def cfg_def Let_def)
  have "\<not> ctls_Enabled (tls_ClientTLS (srv_TLS (cfg_Server cfg)))" and "\<not> grpc_Enabled (cfg_GRPC cfg)"
    by (simp_all add: cfg_def server_defaults_def sample_config_def Let_def)
  with l d obtain rn where m: "main_start ?env None = Inr rn"
    by (auto simp: main_start_def main_grpc_def)
  have w: "\<forall>data raw. me_readFile ?env (config_path None) = Inr data \<and> me_yaml ?env data = Inr raw \<longrightarrow>
      (\<forall>(name, c)\<in>set (cfg_Chains raw). c \<noteq> None \<longrightarrow> weights_ok (the c))"
    by (simp add: sample_main_env_def sample_config_def Let_def weights_ok_def)
  have y: "me_yaml ?env data = Inr sample_config" for data by (simp add: sample_main_env_def)
  let ?P = "\<lambda>(name, c) (name', ch). name' = name \<and> c \<noteq> None \<and> chain_fresh (length (cc_Endpoints (the c))) ch"
  from started_proxy_well_formed [OF m w]
  have a: "list_all2 ?P (cfg_Chains sample_config) (sv_manager (rn_server rn))" unfolding y by blast
  obtain c where c: "cfg_Chains sample_config = [(''ethereum'', c)]"
    by (simp add: sample_config_def Let_def)
  from a obtain x where x: "sv_manager (rn_server rn) = [x]" "?P (''ethereum'', c) x"
    unfolding c by (rule list_all2_single)
  from x(2) have "fst x = ''ethereum'' \<and> chain_ok (snd x)" by (cases x) (simp add: chain_fresh_def)
  with m x(1) show ?thesis by (intro exI [of _ rn]) simp
qed

text \<open>The four pages.\<close>

fun page :: "route_handler \<Rightarrow> request \<Rightarrow> response \<times> 'tls server \<Rightarrow> response \<times> 'tls server" where
  "page RootHandler rq s = HandleRoot s"
| "page HealthHandler rq s = HandleHealth s"
| "page ChainHealthHandler rq s = HandleChainHealth rq s"
| "page ChainsHandler rq s = HandleChains s"
| "page h rq s = s"

definition pages :: "route_handler set" where
  "pages = {RootHandler, HealthHandler, ChainHealthHandler, ChainsHandler}"

text \<open>
  The routes the documentation promises: a request is for one of the four pages when that route's
  pattern alone applies to it among theirs, and a request on a chain when only the two patterns
  of the group apply.
\<close>

definition page_route :: "string \<Rightarrow> route_handler \<Rightarrow> route" where
  "page_route p h = \<lparr>rt_method = Some ''GET'', rt_pattern = p, rt_handler = h\<rparr>"

definition page_routes :: "(string \<times> route_handler) list" where
  "page_routes = [(''/'', RootHandler), (''/health'', HealthHandler),
     (''/health/:chain'', ChainHealthHandler), (''/chains'', ChainsHandler)]"

definition for_page :: "'tls app_env \<Rightarrow> request \<Rightarrow> string \<Rightarrow> string \<Rightarrow> bool" where
  "for_page env rq p chain \<longleftrightarrow>
     (\<forall>(q, h)\<in>set page_routes. ap_matching env (page_route q h) rq = (if q = p then Some chain else None))"

definition on_chain :: "'tls app_env \<Rightarrow> request \<Rightarrow> string \<Rightarrow> bool" where
  "on_chain env rq chain \<longleftrightarrow>
     (\<forall>rt\<in>set main_routes. ap_matching env rt rq =
        (if rt_pattern rt \<in> {''/:chain'', ''/:chain/''} then Some chain else None))"

lemma matched_page:
  "(p, h) \<in> set page_routes \<Longrightarrow> for_page env rq p chain \<Longrightarrow>
     \<exists>ms. matched env main_routes rq = (h, chain) # ms"
  by (auto simp: page_routes_def for_page_def page_route_def main_routes_def)

lemma matched_chain:
  "on_chain env rq chain \<Longrightarrow>
     matched env main_routes rq = [(LimiterMiddleware, chain), (RPCHandler, chain)]"
  by (simp add: on_chain_def main_routes_def)

lemma page_status:
  assumes "h \<in> pages" and "rsp_Status r = 200"
  shows "rsp_Status (fst (page h rq (r, sv))) \<in> {200, 404, 503}"
proof (cases h)
  case ChainHealthHandler
  then show ?thesis
    by (cases "GetChain (sv_manager sv) (rqs_Chain rq)")
      (simp_all add: HandleChainHealth_def send_json_def set_header_def Let_def split_def)
qed (use assms in \<open>auto simp: pages_def HandleRoot_def HandleHealth_def HandleChains_def send_json_def
       set_header_def Let_def split_def\<close>)

lemma page_limiter: "sv_limiter (snd (page h rq (r, sv))) = sv_limiter sv"
proof (cases h)
  case ChainHealthHandler
  then show ?thesis
    by (cases "GetChain (sv_manager sv) (rqs_Chain rq)")
      (simp_all add: HandleChainHealth_def Let_def split_def)
qed (simp_all add: HandleRoot_def HandleHealth_def HandleChains_def Let_def split_def)

text \<open>
  \<open>compress\<close> rewrites at most headers and body of a response that was made without an error; an
  error or a panic of the routes passes through it.
\<close>

definition compress_law :: "'tls app_env \<Rightarrow> (response \<Rightarrow> response) \<Rightarrow> bool" where
  "compress_law env g \<longleftrightarrow> (\<forall>r. rsp_Status (g r) = rsp_Status r) \<and>
     (\<forall>h s. ap_compress env h s =
        (case h s of (e, r, sv) \<Rightarrow> (e, if e = Return None then g r else r, sv)))"

lemma dispatch_none: "matched env rts rq = [] \<Longrightarrow> dispatch env rts rq s = (Return (Some (ap_notFound env)), s)"
  by (induction rts) (auto split: option.splits)

lemma dispatch_page:
  "matched env rts rq = (h, chain) # ms \<Longrightarrow> h \<in> pages \<Longrightarrow>
     dispatch env rts rq s = (Return None, page h (rq\<lparr>rqs_Chain := chain\<rparr>) s)"
proof (induction rts)
  case (Cons rt rts)
  show ?case
  proof (cases "ap_matching env rt rq")
    case None
    with Cons show ?thesis by simp
  next
    case (Some c)
    with Cons.prems show ?thesis by (auto simp: pages_def Let_def)
  qed
qed simp

lemma dispatch_RPC:
  "matched env rts rq = (RPCHandler, chain) # ms \<Longrightarrow>
     dispatch env rts rq s = (Return None, HandleRPC (ap_decode env) (ap_rpc env) (rq\<lparr>rqs_Chain := chain\<rparr>) s)"
  by (induction rts) (auto simp: Let_def split: option.splits)

lemma dispatch_limiter:
  assumes "matched env rts rq = (LimiterMiddleware, chain) # ms"
    and "\<And>rts' s. matched env rts' rq = ms \<Longrightarrow> dispatch env rts' rq s = next s"
  shows "dispatch env rts rq s = RateLimit_Middleware (ap_now env) (rq\<lparr>rqs_Chain := chain\<rparr>) next s"
  using assms(1)
proof (induction rts)
  case (Cons rt rts)
  show ?case
  proof (cases "ap_matching env rt rq")
    case None
    with Cons show ?thesis by simp
  next
    case (Some c)
    with Cons.prems have m: "rt_handler rt = LimiterMiddleware" "c = chain" "matched env rts rq = ms" by simp_all
    have "dispatch env rts rq = next" using assms(2) [OF m(3)] by (rule ext)
    with m Some show ?thesis by (simp add: Let_def)
  qed
qed simp

lemma app_handler_cors:
  "rqs_Method rq \<noteq> ''OPTIONS'' \<Longrightarrow> compress_law env g \<Longrightarrow> app_handler env rq sv =
     (case dispatch env main_routes rq (cors_response, sv) of
        (Return None, r, sv') \<Rightarrow> (g r, sv')
      | (Return (Some err), r, sv') \<Rightarrow> (error_handler err r, sv')
      | (Panic e, r, sv') \<Rightarrow> (send_json 500 internal_error_json r,
          if rqs_Chain rq \<noteq> [] then record_metrics (RecordError (rqs_Chain rq) ''panic'') sv' else sv'))"
  by (auto simp: app_handler_def RecoveryMiddleware_def CORSMiddleware_def Let_def cors_response_def
      compress_law_def split: prod.split outcome.split option.split)

lemma app_handler_options:
  "rqs_Method rq = ''OPTIONS'' \<Longrightarrow>
     app_handler env rq sv = (send_status 204 ''No Content'' cors_response, sv)"
  by (simp add: app_handler_def RecoveryMiddleware_def CORSMiddleware_def Let_def cors_response_def)

text \<open>The verdict of the limiter for a request, and the limiter after it.\<close>

definition limited :: "'tls app_env \<Rightarrow> request \<Rightarrow> 'tls server \<Rightarrow> bool \<times> 'tls server" where
  "limited env rq sv =
     (if rlm_enabled (sv_limiter sv)
      then let (ok, rl) = rlm_Allow (sv_limiter sv) (ap_now env) (rqs_IP rq) in (ok, sv\<lparr>sv_limiter := rl\<rparr>)
      else (True, sv))"

lemma RateLimit_limited:
  "RateLimit_Middleware (ap_now env) (rq\<lparr>rqs_Chain := chain\<rparr>) next (r, sv) =
     (case limited env rq sv of
        (True, sv') \<Rightarrow> next (r, sv')
      | (False, sv') \<Rightarrow> (Return None, send_json 429 rate_limit_json r,
          if chain \<noteq> [] then record_metrics (RecordRateLimitReject chain) sv' else sv'))"
  by (auto simp: RateLimit_Middleware_def limited_def Let_def split_def split: bool.split)

lemma limited_frame:
  "limited env rq sv = (ok, sv') \<Longrightarrow>
     sv_manager sv' = sv_manager sv \<and> sv_cache sv' = sv_cache sv \<and> sv_metrics sv' = sv_metrics sv"
  by (auto simp: limited_def Let_def split_def split: if_splits)

text \<open>
  C26. A POST on a chain, through the whole application: a client over its limit gets 429, which
  touches neither a chain nor the cache and is counted; an unknown chain 404 and a body that
  does not parse 400, neither touching a chain or the cache; otherwise the answer is what the
  cache holds (\<open>HIT\<close>, no chain touched), or the unaltered body some backend returned for this
  request in one of three attempts (\<open>MISS\<close>), or a 502 with the request's id and the error. The
  limiter is charged once in every case, and the answer carries the CORS header. (\<open>g\<close> is what
  compression does to a response.)
\<close>

theorem app_answers_rpc:
  assumes "compress_law env g" and "rqs_Method rq = ''POST''"
    and "on_chain env rq chain" and "chain \<noteq> []"
  shows "let (out, sv') = app_handler env rq sv; (ok, sv1) = limited env rq sv;
       key = (\<lambda>req. mc_makeKey chain (rr_Method req) (rr_Params req))
    in \<exists>r. out = g r \<and> rsp_Headers r ''Access-Control-Allow-Origin'' = Some ''*'' \<and>
       sv_limiter sv' = sv_limiter sv1 \<and>
       (if \<not> ok then rsp_Status r = 429 \<and> rsp_Body r = BodyJSON rate_limit_json \<and>
          sv_manager sv' = sv_manager sv \<and> sv_cache sv' = sv_cache sv \<and>
          sv_metrics sv' = sv_metrics sv @ [Inc RateLimitRejects [chain]]
        else case GetChain (sv_manager sv) chain of
            None \<Rightarrow> rsp_Status r = 404 \<and> sv_manager sv' = sv_manager sv \<and> sv_cache sv' = sv_cache sv
          | Some ch \<Rightarrow>
              (case ap_decode env (rqs_Body rq) of
                 Inl err \<Rightarrow> rsp_Status r = 400 \<and> rsp_Body r = BodyJSON (rpcError (- 32700) ''Parse error'' JNull) \<and>
                   sv_manager sv' = sv_manager sv \<and> sv_cache sv' = sv_cache sv
               | Inr req \<Rightarrow>
                   (rsp_Status r = 200 \<and> (\<exists>b. rsp_Body r = BodyBytes b \<and>
                      (rsp_Headers r ''X-Cache'' = Some ''HIT'' \<and> sv_manager sv' = sv_manager sv \<and>
                         mc_live (sv_cache sv) (rv_get (ap_rpc env)) (key req) = Some b \<or>
                       rsp_Headers r ''X-Cache'' = Some ''MISS'' \<and>
                         (\<exists>k ep code d. k \<le> 2 \<and>
                            at_http (rv_attempt (ap_rpc env) k) ep (rqs_Body rq) = Response code b d)))) \<or>
                   (rsp_Status r = 502 \<and>
                     (\<exists>err. fst (ForwardWithRetry ch (rqs_Body rq) 2 (rv_attempt (ap_rpc env))) = Inl err \<and>
                        rsp_Body r = BodyJSON (rpcError (- 32603) (''Internal error: '' @ error_text err) (rr_ID req))))))"
proof -
  let ?crq = "rq\<lparr>rqs_Chain := chain\<rparr>" and ?um = "ap_decode env" and ?env = "ap_rpc env"
  have no: "rqs_Method rq \<noteq> ''OPTIONS''" using assms(2) by simp
  have d: "dispatch env main_routes rq s = RateLimit_Middleware (ap_now env) ?crq
      (\<lambda>s. (Return None, HandleRPC ?um ?env ?crq s)) s" for s
    using matched_chain [OF assms(3)] by (rule dispatch_limiter) (rule dispatch_RPC)
  obtain ok sv1 where l: "limited env rq sv = (ok, sv1)" by fastforce
  note f = limited_frame [OF l]
  show ?thesis
  proof (cases ok)
    case False
    with l assms(4) have "app_handler env rq sv =
        (g (send_json 429 rate_limit_json cors_response), record_metrics (RecordRateLimitReject chain) sv1)"
      by (simp add: app_handler_cors [OF no assms(1)] d RateLimit_limited)
    with False l f show ?thesis
      by (auto simp: send_json_def set_header_def cors_response_def record_metrics_def metrics_defs
          intro!: exI [of _ "send_json 429 rate_limit_json cors_response"])
  next
    case True
    let ?out = "HandleRPC ?um ?env ?crq (cors_response, sv1)"
    have app: "app_handler env rq sv = (g (fst ?out), snd ?out)"
      using True l by (simp add: app_handler_cors [OF no assms(1)] d RateLimit_limited split_def)
    have lim: "sv_limiter (snd ?out) = sv_limiter sv1" by simp
    show ?thesis
    proof (cases "GetChain (sv_manager sv) chain")
      case None
      with app True l f show ?thesis
        by (auto simp: HandleRPC_def send_json_def set_header_def cors_response_def
            intro!: exI [of _ "fst ?out"])
    next
      case ch: (Some ch)
      show ?thesis
      proof (cases "ap_decode env (rqs_Body rq)")
        case (Inl err)
        with ch app True l f show ?thesis
          by (auto simp: HandleRPC_def send_json_def set_header_def cors_response_def record_metrics_def
              intro!: exI [of _ "fst ?out"])
      next
        case (Inr req)
        have c: "GetChain (sv_manager sv1) (rqs_Chain ?crq) = Some ch" "?um (rqs_Body ?crq) = Inr req"
          using ch Inr f by simp_all
        show ?thesis
          using app True l f lim ch Inr
          by (cases rule: HandleRPC_three [where um = ?um and env = ?env and r = cors_response, OF c,
                case_names hit backend failed];
            force simp: send_bytes_def send_json_def set_header_def cors_response_def new_response_def
              intro!: exI [of _ "fst ?out"])
      qed
    qed
  qed
qed

text \<open>A matcher for the patterns of \<open>main\<close>: segment by segment, a group by prefix.\<close>

fun segments :: "string \<Rightarrow> string \<Rightarrow> string list" where
  "segments seg [] = (if seg = [] then [] else [seg])"
| "segments seg (c # cs) =
     (if c = CHR ''/'' then (if seg = [] then segments [] cs else seg # segments [] cs)
      else segments (seg @ [c]) cs)"

fun seg_match :: "bool \<Rightarrow> string list \<Rightarrow> string list \<Rightarrow> string \<Rightarrow> string option" where
  "seg_match prefix [] ss chain = (if prefix \<or> ss = [] then Some chain else None)"
| "seg_match prefix (p # ps) [] chain = None"
| "seg_match prefix (p # ps) (s # ss) chain =
     (if p = '':chain'' then seg_match prefix ps ss s
      else if p = s then seg_match prefix ps ss chain else None)"

definition sample_matching :: "route \<Rightarrow> request \<Rightarrow> string option" where
  "sample_matching rt rq =
     (if rt_method rt \<noteq> None \<and> rt_method rt \<noteq> Some (rqs_Method rq) then None
      else seg_match (rt_method rt = None) (segments [] (rt_pattern rt)) (segments [] (rqs_Path rq)) [])"

definition sample_app :: "unit app_env" where
  "sample_app = \<lparr>ap_matching = sample_matching, ap_decode = sample_parse, ap_compress = (\<lambda>h s. h s),
     ap_now = 100, ap_rpc = sample_env 100 503, ap_notFound = ErrNew ''Not Found''\<rparr>"

lemma sample_compress: "compress_law sample_app id"
  by (simp add: compress_law_def sample_app_def split_def prod_eq_iff)

definition sample_page :: "string \<Rightarrow> string \<Rightarrow> request" where
  "sample_page verb path = (sample_request ''1'')\<lparr>rqs_Method := verb, rqs_Path := path\<rparr>"

definition open_server :: "unit server" where
  "open_server = sample_server\<lparr>sv_limiter := (sv_limiter sample_server)\<lparr>rlm_enabled := False\<rparr>\<rparr>"

lemma sample_matched [simp]:
  "matched sample_app main_routes (sample_page ''GET'' ''/health'') = [(HealthHandler, []), (LimiterMiddleware, ''health'')]"
  "matched sample_app main_routes (sample_page ''GET'' ''/eth'') = [(LimiterMiddleware, ''eth'')]"
  by (simp_all add: main_routes_def sample_app_def sample_matching_def sample_page_def sample_request_def)

lemma sample_on_chain: "on_chain sample_app (sample_page ''POST'' ''/eth'') ''eth''"
  by (simp add: on_chain_def main_routes_def sample_app_def sample_matching_def sample_page_def
      sample_request_def)

lemma sample_for_page: "for_page sample_app (sample_page ''GET'' ''/health'') ''/health'' []"
  by (simp add: for_page_def page_routes_def page_route_def sample_app_def sample_matching_def
      sample_page_def sample_request_def)

lemma sample_limited:
  "fst (limited sample_app (sample_page verb path) sample_server) = False"
  "limited sample_app (sample_page verb path) open_server = (True, open_server)"
  by (simp_all add: limited_def open_server_def sample_server_def sample_app_def NewRateLimiter_def
      rlm_Allow_def time_sub_def fadd_def fmul_def rnd64_def Let_def split_def)

theorem app_answers_rpc_witness:
  "rsp_Status (fst (app_handler sample_app (sample_page ''POST'' ''/eth'') sample_server)) = 429 \<and>
   rsp_Status (fst (app_handler sample_app (sample_page ''POST'' ''/eth'') open_server)) \<in> {200, 502}"
proof -
  have m: "rqs_Method (sample_page ''POST'' ''/eth'') = ''POST''"
    and b: "rqs_Body (sample_page ''POST'' ''/eth'') = ''1''"
    by (simp_all add: sample_page_def sample_request_def)
  have o: "GetChain (sv_manager open_server) ''eth'' = Some sample_chain" by (simp add: open_server_def)
  have p: "ap_decode sample_app ''1'' = Inr \<lparr>rr_JSONRPC = ''2.0'', rr_Method = ''m'', rr_Params = ''[]'',
      rr_ID = JString ''1''\<rparr>"
    by (simp add: sample_app_def sample_parse_def)
  note app = app_answers_rpc [OF sample_compress m sample_on_chain, unfolded Let_def split_def b]
  show ?thesis
    using app [of sample_server] app [of open_server] sample_limited [of "''POST''" "''/eth''"] o p
    by auto
qed

text \<open>
  C27. The status pages are not rate limited: a request for one of the four pages reaches that
  page first, and is answered by it with 200, 404 or 503 whatever the limiter's state, and leaves
  it alone, although the
  group \<open>/:chain\<close> applies to it as well. A request that no page and no RPC handler ends (an
  unknown path, a GET on a chain) is answered 500 by the application's error handler, never 404
  or 405, unless the group's limiter denies it with 429. A preflight request to any path is
  answered 204 and touches nothing.
\<close>

theorem pages_and_unmatched:
  assumes "compress_law env g"
  shows "(\<forall>(p, h)\<in>set page_routes. \<forall>chain. for_page env rq p chain \<longrightarrow>
       (\<exists>ms. matched env main_routes rq = (h, chain) # ms) \<and> h \<in> pages) \<and>
    (let (out, sv') = app_handler env rq sv
    in if rqs_Method rq = ''OPTIONS'' then rsp_Status out = 204 \<and> sv' = sv
       else case matched env main_routes rq of
           [] \<Rightarrow> rsp_Status out = 500 \<and> rsp_Body out = BodyJSON internal_error_json \<and> sv' = sv
         | (h, chain) # ms \<Rightarrow>
             (h \<in> pages \<longrightarrow> rsp_Status out \<in> {200, 404, 503} \<and> sv_limiter sv' = sv_limiter sv \<and>
                map_prod g id (page h (rq\<lparr>rqs_Chain := chain\<rparr>) (cors_response, sv)) = (out, sv')) \<and>
             (h = LimiterMiddleware \<and> ms = [] \<longrightarrow>
                (if fst (limited env rq sv)
                 then rsp_Status out = 500 \<and> rsp_Body out = BodyJSON internal_error_json \<and>
                   sv' = snd (limited env rq sv)
                 else rsp_Status out = 429 \<and> sv_manager sv' = sv_manager sv \<and> sv_cache sv' = sv_cache sv)))"
    (is "?routes \<and> ?answer")
proof -
  have ?routes using matched_page [of _ _ env rq] by (auto simp: page_routes_def pages_def)
  moreover have ?answer
  proof (cases "rqs_Method rq = ''OPTIONS''")
    case True
    then show ?thesis by (simp add: app_handler_options send_status_def)
  next
    case False
    note app = app_handler_cors [OF False assms, of sv]
    have st: "rsp_Status (g r) = rsp_Status r" for r using assms by (simp add: compress_law_def)
    have c: "rsp_Status cors_response = 200"
      by (simp add: cors_response_def set_header_def new_response_def)
    show ?thesis
    proof (cases "matched env main_routes rq")
      case Nil
      with False app show ?thesis
        by (simp add: dispatch_none error_handler_def send_json_def set_header_def)
    next
      case (Cons m ms)
      obtain h chain where m: "m = (h, chain)" by fastforce
      let ?s = "(cors_response, sv)" and ?crq = "rq\<lparr>rqs_Chain := chain\<rparr>"
      have pg: "app_handler env rq sv = map_prod g id (page h ?crq ?s) \<and>
          rsp_Status (fst (page h ?crq ?s)) \<in> {200, 404, 503} \<and>
          sv_limiter (snd (page h ?crq ?s)) = sv_limiter sv" if "h \<in> pages"
        using app dispatch_page [OF Cons [unfolded m] that, of ?s] page_status [OF that c, of ?crq sv]
        by (simp add: page_limiter split_def map_prod_def)
      obtain ok sv1 where l: "limited env rq sv = (ok, sv1)" by fastforce
      have lm: "app_handler env rq sv = (if ok then (error_handler (ap_notFound env) cors_response, sv1)
          else (g (send_json 429 rate_limit_json cors_response),
            if chain \<noteq> [] then record_metrics (RecordRateLimitReject chain) sv1 else sv1))"
        if "h = LimiterMiddleware" and "ms = []"
      proof -
        have "dispatch env main_routes rq ?s =
            RateLimit_Middleware (ap_now env) ?crq (\<lambda>s. (Return (Some (ap_notFound env)), s)) ?s"
          using Cons that unfolding m by (intro dispatch_limiter dispatch_none) simp_all
        with app l show ?thesis by (cases ok) (simp_all add: RateLimit_limited)
      qed
      from limited_frame [OF l] False Cons m pg lm l st show ?thesis
        by (auto simp: split_def error_handler_def send_json_def set_header_def record_metrics_def)
    qed
  qed
  ultimately show ?thesis by blast
qed

theorem pages_and_unmatched_witness:
  "(\<exists>ms. matched sample_app main_routes (sample_page ''GET'' ''/health'') = (HealthHandler, []) # ms) \<and>
   rsp_Status (fst (app_handler sample_app (sample_page ''GET'' ''/health'') sample_server)) \<in> {200, 404, 503} \<and>
   rsp_Status (fst (app_handler sample_app (sample_page ''GET'' ''/eth'') open_server)) = 500 \<and>
   rsp_Status (fst (app_handler sample_app (sample_page ''GET'' ''/eth'') sample_server)) = 429 \<and>
   rsp_Status (fst (app_handler sample_app (sample_page ''OPTIONS'' ''/eth'') sample_server)) = 204"
proof -
  have m: "rqs_Method (sample_page verb path) = verb" for verb path by (simp add: sample_page_def)
  note r = pages_and_unmatched [OF sample_compress, unfolded Let_def split_def]
  have "(''/health'', HealthHandler) \<in> set page_routes" by (simp add: page_routes_def)
  then have "\<exists>ms. matched sample_app main_routes (sample_page ''GET'' ''/health'') = (HealthHandler, []) # ms"
    using bspec [OF conjunct1 [OF pages_and_unmatched [OF sample_compress]]] sample_for_page
    by fastforce
  then show ?thesis
    using r [of "sample_page ''GET'' ''/health''" sample_server] r [of "sample_page ''GET'' ''/eth''" open_server]
      r [of "sample_page ''GET'' ''/eth''" sample_server] r [of "sample_page ''OPTIONS'' ''/eth''" sample_server]
      sample_limited [of "''GET''" "''/eth''"]
    by (simp add: m pages_def)
qed

end
