(* ===== verification/Spec2Isabelle.thy ===== *)
theory Spec2Isabelle
  imports HealthCheck ClientTLS Cache RateLimit Metrics Proxy Watcher Grpc Pool Session Startup
begin

text \<open>
  \<^bold>\<open>multichain-rpc-proxy: a verification library.\<close>

  The program (Go) is a reverse proxy for JSON-RPC: a client posts a request to \<open>/<chain>\<close>,
  the proxy answers from its cache or forwards the body to one of the chain's backend
  endpoints, chosen by weighted round robin among the healthy ones, with up to two retries; a
  circuit breaker guards each endpoint and a background checker per chain decides which
  endpoints are healthy from the block heights they report. All definitions are translated
  from the sources named below, operation by operation, and compute.

  \<^bold>\<open>Theories, in the order they depend on each other.\<close>

  \<^item> \<open>Prelude\<close>: 64-bit integers with their wrap-around (\<open>wrap64\<close>), truncating division, time and
    saturating durations, Go errors and panics as values, the locales \<open>invariant_system\<close> and
    \<open>simulation\<close>.
  \<^item> \<open>CircuitBreaker\<close> (\<open>internal/chain/circuitbreaker.go\<close>): the breaker's record and every
    method as a function of the clock readings it makes. The code stores only closed and open and
    computes half-open from the clock; \<open>breaker_step\<close> is the three-phase machine it is meant to be
    and the interpretation \<open>cb\<close> of \<open>simulation\<close> shows that it is.
  \<^item> \<open>Config\<close>, \<open>ClientTLS\<close> (\<open>internal/config/config.go\<close>, \<open>internal/tls/client.go\<close>): the
    configuration tree, \<open>Load\<close> with its defaults and its panic, the client TLS settings.
  \<^item> \<open>Float64\<close>: \<open>float64\<close> arithmetic as rationals rounded to 53 bits (\<open>rnd64\<close>, round half to even)
    and \<open>Duration.Seconds\<close>; the locale \<open>float_rounding\<close> states monotonicity, exactness on integers up
    to \<open>2^53\<close> and the relative error, and is interpreted on \<open>rnd64\<close>.
  \<^item> \<open>Endpoint\<close> (\<open>internal/chain/endpoint.go\<close>): \<open>Call\<close> and \<open>Forward\<close> against an environment that
    says how far the HTTP exchange got (\<open>http_result\<close>), with all counters and the breaker.
  \<^item> \<open>LoadBalancer\<close> (\<open>internal/chain/loadbalancer.go\<close>): \<open>Next\<close> reads the health flags once per
    loop, so it takes one flag function per loop; other goroutines may change them in between.
    The locale \<open>selector\<close> is what the retry loop needs of it.
  \<^item> \<open>BlockNumber\<close> (\<open>parseBlockNumber\<close> in \<open>internal/chain/health.go\<close>): hexadecimal and decimal
    parsing on 64-bit words.
  \<^item> \<open>Chain\<close> (\<open>internal/chain/chain.go\<close>): construction from the configuration, forwarding with
    retries under arbitrary interference between attempts (\<open>at_world\<close>), the manager.
  \<^item> \<open>HealthCheck\<close> (\<open>internal/chain/health.go\<close>): one round with any order of arrival of the
    results and any iteration order of the map, and the ticker loop.
  \<^item> \<open>Sha256\<close>, \<open>Cache\<close> (\<open>internal/cache/cache.go\<close>): SHA-256 and hexadecimal coding as the
    keys use them, the in-memory cache and the cache behind Redis. The locale \<open>ttl_cache\<close> is the
    contract of a cache with expiry, interpreted on the in-memory one.
  \<^item> \<open>RateLimit\<close> (\<open>internal/ratelimit/ratelimit.go\<close>): token bucket, sliding window, clean-up,
    \<open>MultiLimiter\<close>. The locale \<open>keyed_limiter\<close> (a call reads and writes its own key only) is
    interpreted on both limiters.
  \<^item> \<open>Metrics\<close> (\<open>internal/metrics/prometheus.go\<close>): the recording functions as the calls they make.
  \<^item> \<open>Proxy\<close> (\<open>internal/proxy/handler.go\<close>, \<open>middleware.go\<close>, the RPC route of \<open>cmd/proxy/main.go\<close>):
    handlers and middleware as transformers of response and server state.
  \<^item> \<open>Grpc\<close> (\<open>internal/grpc/rpc_service.go\<close>, \<open>health_service.go\<close>, \<open>interceptors.go\<close>): the RPC
    and health services over the same manager and cache, with a stream as the list of what its
    \<open>Recv\<close> and \<open>Send\<close> return.
  \<^item> \<open>Watcher\<close> (\<open>internal/config/watcher.go\<close>): the debounced reload of the configuration as a loop
    over timed file events, with the pending timer in its state.
  \<^item> \<open>Pool\<close> (\<open>internal/websocket/pool.go\<close>): the pool of backend connections over an explicit heap,
    since clients and pool share pointers. \<open>apool_step\<close> is its specification, a bounded set of
    busy and idle resources; the interpretation \<open>pool\<close> of \<open>simulation\<close> connects them.
  \<^item> \<open>Session\<close> (\<open>internal/websocket/handler.go\<close>): the two goroutines of a client's session as
    program counters over shared, unlocked state. A run is a schedule: whose turn it is and what
    the environment gives that step; theorems quantify over schedules.
  \<^item> \<open>Startup\<close> (\<open>cmd/proxy/main.go\<close>, \<open>internal/grpc/server.go\<close>): start-up with every fatal exit,
    the route table and its dispatch, the error handler, the shutdown.

  \<^bold>\<open>State and concurrency.\<close> A struct is a record, a pointer to an endpoint its index in the
  chain's list, a map a partial function or, where the order of a \<open>range\<close> matters, a list of
  pairs in any order. A method that holds its mutex throughout is one step. Where the code
  interleaves with other goroutines (flags during \<open>Next\<close>, the chain between two attempts, the
  cache while a request is forwarded, arrival order in a round) the interference is an
  argument and the theorems hold for all of it, or name the case without interference.

  \<^bold>\<open>What the properties show.\<close> The breaker refines its phase machine, opens at its threshold,
  limits probes and recovers, except when configured to need more successes than it
  allows probes. Selection is exactly proportional to the weights. A failing request visits distinct
  healthy endpoints and marks exactly those unhealthy. A health round classifies by lag, in
  any order of events. Heights round-trip, and wrap at \<open>2^63\<close>. The cache is its log. The token
  bucket admits at most burst plus rate times elapsed time, up to float rounding that is
  bounded explicitly; the sliding window at most its rate per window; clients do not affect
  each other. Every HTTP answer comes from the cache, a backend or is a 502, and the counters
  are exact. A gRPC call decodes what the HTTP handler cached, a stream is a batch, and a
  burst of file events is one reload. The connection pool is a bounded set of resources that hands
  nothing out twice and leaks nothing. A WebSocket session answers for every request under every
  interleaving, but leaks a connection when it closes, can end the process after a failed write,
  and goes deaf after its pong timeout. What \<open>main\<close> starts is well formed and answers by the routes
  modelled here. The theorems below span several components.

  \<^bold>\<open>Bounds and fuel.\<close> The only fuel is the number of attempts of \<open>retry_loop\<close>,
  \<open>maxRetries + 1\<close>, which is the bound of the source's own loop; the loops that wait for events run over the
  list of what they receive. Token counts and rates are below \<open>2^53\<close>, where integers are exact.

  \<^bold>\<open>Parameters.\<close> Code that is not in the repository is an argument: the HTTP client and the
  backends, JSON and YAML coding, file access and notifications, \<open>crypto/tls\<close>, the Redis client (with
  \<open>redis_laws\<close>), fiber's \<open>Next\<close>, path matching and compression, the WebSocket
  library.

  \<^bold>\<open>Not modelled.\<close> Of \<open>cmd/proxy/main.go\<close> the goroutines that serve the HTTP, metrics and gRPC
  sockets; an error of the HTTP listener ends the process later, as any fatal exit does. The data
  race on \<open>backendConn\<close> is modelled with sequentially consistent accesses, which Go does not promise.
  Generated code (\<open>api/gen\<close>) is not modelled, nor are logging and listening sockets.
\<close>

section \<open>From the configuration file to the running proxy\<close>

lemma run_without_interval:
  assumes "hc_Interval (cc_HealthCheck cc) = 0"
  shows "run m u rd es (NewChainWithOptions \<lparr>co_Name = name, co_Config = cc, co_TLSConfig = tls\<rparr>) =
    Panic ''non-positive interval for NewTicker''"
  using assms
  by (simp add: run_def Let_def NewChainWithOptions_def NewHealthChecker_def)

text \<open>
  C22. A chain whose \<open>health_check.interval\<close> is left out of the file passes \<open>Load\<close> and the
  manager's construction, and its checker then panics after the first round, in a goroutine
  nothing recovers: the documented default of 10 seconds does not exist.
\<close>

theorem omitted_interval_kills_proxy:
  assumes "readFile path = Inr data" and "unmarshal data = Inr raw"
    and "(name, Some cc) \<in> set (cfg_Chains raw)" and "hc_Interval (cc_HealthCheck cc) = 0"
    and "Load readFile unmarshal path = Return (Inr cfg)"
  shows "\<exists>cc'. (name, Some cc') \<in> set (cfg_Chains cfg) \<and>
    run m u rd es (NewChainWithOptions \<lparr>co_Name = name, co_Config = cc', co_TLSConfig = tls\<rparr>) =
      Panic ''non-positive interval for NewTicker''"
proof -
  from Load_keeps_health_check [OF assms(5,1,2,3)] obtain cc'
    where "(name, Some cc') \<in> set (cfg_Chains cfg)" and "cc_HealthCheck cc' = cc_HealthCheck cc"
    by blast
  with assms(4) show ?thesis
    by (intro exI [of _ cc'] conjI run_without_interval) simp_all
qed

theorem omitted_interval_kills_proxy_witness:
  "\<exists>cfg cc. Load (\<lambda>_. Inr ''yaml'') (\<lambda>_. Inr sample_config) ''f'' = Return (Inr cfg) \<and>
     (''ethereum'', Some cc) \<in> set (cfg_Chains cfg) \<and>
     run (\<lambda>_. Inr []) raw_result (sample_round (\<lambda>_. Response 200 ''0x5'' 1)) []
       (NewChainWithOptions \<lparr>co_Name = ''ethereum'', co_Config = cc, co_TLSConfig = None :: unit option\<rparr>) =
       Panic ''non-positive interval for NewTicker''"
proof -
  let ?c = "the (snd (cfg_Chains sample_config ! 0))"
  have c: "(''ethereum'', Some ?c) \<in> set (cfg_Chains sample_config)"
    and z: "hc_Interval (cc_HealthCheck ?c) = 0"
    by (simp_all add: sample_config_def Let_def)
  obtain cfg where l: "Load (\<lambda>_. Inr ''yaml'') (\<lambda>_. Inr sample_config) ''f'' = Return (Inr cfg)"
    by (simp add: Load_def sample_config_def Let_def server_defaults_def)
  from omitted_interval_kills_proxy [of "\<lambda>_. Inr ''yaml''" "''f''" "''yaml''" "\<lambda>_. Inr sample_config",
      OF refl refl c z l] l
  show ?thesis by blast
qed

section \<open>A chain without weights\<close>

lemma retry_without_weight:
  assumes "chain_ok c" and "\<forall>e\<in>set (endpoints c). Weight e = 0" and "0 \<le> maxRetries"
  shows "ForwardWithRetry c body maxRetries env =
    (Inl (ErrWrap (''chain '' @ ch_Name c) ErrNoHealthyEndpoints), c)"
proof -
  have "\<forall>(ep, w)\<in>set (weighted (loadBalancer c)). flags c ep \<longrightarrow> w = 0"
    using assms(1,2) by (auto simp: chain_ok_def set_zip)
  moreover have "lb_ok (loadBalancer c)" using assms(1) by (simp add: chain_ok_def)
  ultimately have "fst (Next_seq (flags c) (loadBalancer c)) = Inl ErrNoHealthyEndpoints"
    using Next_seq_no_weight by blast
  then have f: "fst (chain_next c) = Inl ErrNoHealthyEndpoints"
    by (simp add: chain_next_def split_def Let_def)
  then have "chain_next c = (Inl ErrNoHealthyEndpoints, snd (chain_next c))"
    by (simp add: prod_eq_iff)
  with chain_next_Inl [OF assms(1) this] have "chain_next c = (Inl ErrNoHealthyEndpoints, c)" by simp
  moreover have "nat (maxRetries + 1) = Suc (nat maxRetries)" using assms(3) by simp
  ultimately show ?thesis by (simp add: ForwardWithRetry_def no_endpoint_def)
qed

text \<open>
  C21. A chain whose endpoints were configured without weights is reported healthy by
  \<open>/health\<close> as long as no round has judged them, while every request to it that the cache does
  not hold is answered 502 without a backend being asked.
\<close>

theorem healthy_but_unservable:
  assumes "cc_Endpoints cc \<noteq> []" and "\<forall>e\<in>set (cc_Endpoints cc). epc_Weight e = 0"
    and "sv_manager sv = NewManagerWithOptions [(name, cc)] tls" and "rqs_Chain rq = name"
    and "um (rqs_Body rq) = Inr req"
    and "mc_live (sv_cache sv) (rv_get env) (mc_makeKey name (rr_Method req) (rr_Params req)) = None"
  shows "rsp_Status (fst (HandleHealth (new_response, sv))) = 200 \<and>
    rsp_Status (fst (HandleRPC um env rq (new_response, sv))) = 502 \<and>
    rsp_Body (fst (HandleRPC um env rq (new_response, sv))) = BodyJSON (rpcError (- 32603)
      (''Internal error: chain '' @ name @ '': no healthy endpoints available'') (rr_ID req))"
proof -
  define c where "c = NewChainWithOptions \<lparr>co_Name = name, co_Config = cc, co_TLSConfig = tls\<rparr>"
  have m: "sv_manager sv = [(name, c)]" by (simp add: assms(3) NewManagerWithOptions_def c_def)
  have ok: "chain_ok c"
    unfolding c_def using assms(2) by (intro chain_ok_new) (simp_all cong: map_cong)
  have eps: "endpoints c = map (endpoint_of_config tls cc) (cc_Endpoints cc)" and n: "ch_Name c = name"
    by (simp_all add: c_def NewChainWithOptions_def Let_def)
  have "healthy (endpoint_of_config tls cc e)" for e
    by (simp add: endpoint_of_config_def NewEndpointWithOptions_def Let_def)
  with assms(1) have "\<exists>e\<in>set (endpoints c). healthy e" by (cases "cc_Endpoints cc") (auto simp: eps)
  then have "rsp_Status (fst (HandleHealth (new_response, sv))) = 200"
    using health_evaluated [of sv] ok by (simp add: m Let_def split_def)
  moreover
  have w: "\<forall>e\<in>set (endpoints c). Weight e = 0" using assms(2) by (simp add: eps)
  have f: "ForwardWithRetry c (rqs_Body rq) 2 (rv_attempt env) =
      (Inl (ErrWrap (''chain '' @ name) ErrNoHealthyEndpoints), c)"
    using retry_without_weight [OF ok w, of 2 "rqs_Body rq" "rv_attempt env"] by (simp add: n)
  have "GetChain (sv_manager sv) (rqs_Chain rq) = Some c" by (simp add: m assms(4) GetChain_def)
  from HandleRPC_miss [where um = um, OF this assms(5), of env new_response] assms(4,6)
  obtain sv' where h: "HandleRPC um env rq (new_response, sv) =
      rpc_forward env name (rqs_Body rq) req c (new_response, sv')" by metis
  ultimately show ?thesis
    using rpc_forward_error [OF f, of name req new_response sv']
    by (simp add: h send_json_def set_header_def)
qed

theorem healthy_but_unservable_witness:
  "let cc = (the (snd (cfg_Chains sample_config ! 0)))\<lparr>cc_Endpoints := [\<lparr>epc_URL = ''u'', epc_Weight = 0\<rparr>]\<rparr>;
       sv = sample_server\<lparr>sv_manager := NewManagerWithOptions [(''eth'', cc)] None\<rparr>
   in rsp_Status (fst (HandleHealth (new_response, sv))) = 200 \<and>
      rsp_Status (fst (HandleRPC sample_parse (sample_env 0 200) (sample_request ''1'') (new_response, sv))) = 502"
proof -
  let ?cc = "(the (snd (cfg_Chains sample_config ! 0)))\<lparr>cc_Endpoints := [\<lparr>epc_URL = ''u'', epc_Weight = 0\<rparr>]\<rparr>"
  let ?sv = "sample_server\<lparr>sv_manager := NewManagerWithOptions [(''eth'', ?cc)] None\<rparr>"
  have "sample_parse (rqs_Body (sample_request ''1'')) = Inr \<lparr>rr_JSONRPC = ''2.0'',
      rr_Method = ''m'', rr_Params = ''[]'', rr_ID = JString ''1''\<rparr>"
    by (simp add: sample_parse_def)
  from healthy_but_unservable [where um = sample_parse and sv = ?sv and cc = ?cc and name = "''eth''"
      and tls = None and rq = "sample_request ''1''" and env = "sample_env 0 200", OF _ _ _ _ this]
  show ?thesis by (simp add: Let_def)
qed

end
